theory Spec2Isabelle
  imports Complex_Main
begin

section \<open>JavaScript strings and results\<close>

text \<open>
  Strings are lists of code units; the model covers the code units below 256 (the Latin-1
  range of a JavaScript string), so \<open>char\<close> stands for one code unit. The functions of
  this section are the String.prototype methods the sources call, restricted to that range.
  A Result of the sources is a sum: \<open>Inl\<close> carries the message of
  \<open>Result.fail(new Error(message))\<close>, \<open>Inr\<close> the value of \<open>Result.ok(value)\<close>.
\<close>

type_synonym 'a Result = "string + 'a"

definition isWhiteSpace :: "char \<Rightarrow> bool" where
  \<comment> \<open>WhiteSpace and LineTerminator code units below 256: TAB, LF, VT, FF, CR, SP, NBSP\<close>
  "isWhiteSpace c = (c \<in> set [CHR 0x09, CHR 0x0A, CHR 0x0B, CHR 0x0C, CHR 0x0D, CHR 0x20, CHR 0xA0])"

definition isLineTerminator :: "char \<Rightarrow> bool" where
  "isLineTerminator c = (c = CHR 0x0A \<or> c = CHR 0x0D)"

definition isDigit :: "char \<Rightarrow> bool" where
  "isDigit c = (c \<in> set ''0123456789'')"

definition isUpper :: "char \<Rightarrow> bool" where
  \<comment> \<open>code units with a different lower-case form: A-Z and the Latin-1 capitals\<close>
  "isUpper c = (let n = (of_char c :: nat)
                in (65 \<le> n \<and> n \<le> 90) \<or> (192 \<le> n \<and> n \<le> 222 \<and> n \<noteq> 215))"

definition toLowerChar :: "char \<Rightarrow> char" where
  "toLowerChar c = (if isUpper c then char_of (of_char c + (32::nat)) else c)"

definition toLowerCase :: "string \<Rightarrow> string" where
  "toLowerCase s = map toLowerChar s"

definition startsWith :: "string \<Rightarrow> string \<Rightarrow> bool" where
  \<comment> \<open>\<open>s.startsWith(p)\<close>\<close>
  "startsWith s p = (take (length p) s = p)"

definition charAt :: "string \<Rightarrow> nat \<Rightarrow> char option" where
  \<comment> \<open>\<open>s[i]\<close>, \<open>None\<close> for \<open>undefined\<close>\<close>
  "charAt s i = (if i < length s then Some (s ! i) else None)"

fun indexOf :: "string \<Rightarrow> string \<Rightarrow> int" where
  \<comment> \<open>\<open>s.indexOf(pat)\<close>: position of the first occurrence, or -1\<close>
  "indexOf [] pat = (if pat = [] then 0 else -1)"
| "indexOf (c # t) pat =
     (if startsWith (c # t) pat then 0
      else (let r = indexOf t pat in if r < 0 then -1 else r + 1))"

definition trimStart :: "string \<Rightarrow> string" where
  "trimStart s = dropWhile isWhiteSpace s"

definition trimEnd :: "string \<Rightarrow> string" where
  "trimEnd s = rev (dropWhile isWhiteSpace (rev s))"

definition trim :: "string \<Rightarrow> string" where
  "trim s = trimEnd (trimStart s)"

fun digitsOf :: "nat \<Rightarrow> string" where
  "digitsOf n = (if n < 10 then [''0123456789'' ! n]
                 else digitsOf (n div 10) @ [''0123456789'' ! (n mod 10)])"

definition String :: "int \<Rightarrow> string" where
  \<comment> \<open>\<open>String(n)\<close> for an integral number\<close>
  "String n = (if n < 0 then CHR ''-'' # digitsOf (nat (- n)) else digitsOf (nat n))"

definition digitValue :: "char \<Rightarrow> nat" where
  "digitValue c = of_char c - 48"

definition digitsValue :: "string \<Rightarrow> nat" where
  "digitsValue ds = foldl (\<lambda>acc c. 10 * acc + digitValue c) 0 ds"

definition parseInt10 :: "string \<Rightarrow> int option" where
  \<comment> \<open>\<open>parseInt(s, 10)\<close>: leading white space is skipped, then an optional sign, then the
      longest run of decimal digits; \<open>None\<close> is NaN. The number is kept exact: the source
      only compares it with 1 and takes its minimum with 50, which rounding to a double
      does not change.\<close>
  "parseInt10 s =
     (let t = trimStart s;
          neg = startsWith t ''-'';
          u = (if startsWith t ''-'' \<or> startsWith t ''+'' then tl t else t);
          ds = takeWhile isDigit u
      in if ds = [] then None
         else Some (if neg then - int (digitsValue ds) else int (digitsValue ds)))"

definition truthy :: "string option \<Rightarrow> string option" where
  \<comment> \<open>a value of type \<open>string | null | undefined\<close> in a condition: \<open>Some s\<close> when it is a
      string and not empty\<close>
  "truthy v = (case v of None \<Rightarrow> None | Some s \<Rightarrow> if s = [] then None else Some s)"

section \<open>Scope matching (worker source of rlm-sandbox.ts)\<close>

definition scopeMatches :: "string \<Rightarrow> string \<Rightarrow> bool" where
  "scopeMatches sv pat =
     (let s = toLowerCase sv; p = toLowerCase pat
      in s = p \<or> (startsWith s p \<and> charAt s (length p) = Some CHR ''/''))"

section \<open>Git log argument sanitization (rlm-sandbox.ts)\<close>

definition ALLOWED_GIT_LOG_FLAGS :: "string list" where
  "ALLOWED_GIT_LOG_FLAGS =
     [''--format'', ''--author'', ''--since'', ''--until'', ''--grep'', ''--no-merges'', ''-n'']"

definition DANGEROUS_CHARS :: "char list" where
  \<comment> \<open>the class of the regular expression: | ; & $ backtick backslash\<close>
  "DANGEROUS_CHARS = [CHR ''|'', CHR '';'', CHR ''&'', CHR ''$'', CHR 0x60, CHR 0x5C]"

definition hasDangerousChar :: "string \<Rightarrow> bool" where
  \<comment> \<open>\<open>DANGEROUS_CHARS.test(arg)\<close>\<close>
  "hasDangerousChar arg = list_ex (\<lambda>c. c \<in> set DANGEROUS_CHARS) arg"

definition flagOf :: "string \<Rightarrow> string" where
  \<comment> \<open>the flag portion: \<open>eqIdx >= 0 ? arg.slice(0, eqIdx) : arg\<close>\<close>
  "flagOf arg = (let eqIdx = indexOf arg ''='' in if eqIdx \<ge> 0 then take (nat eqIdx) arg else arg)"

fun sanitizeLoop :: "string list \<Rightarrow> string list \<Rightarrow> string list Result" where
  \<comment> \<open>the for loop: the arguments from index i on, and the list \<open>sanitized\<close> so far\<close>
  "sanitizeLoop [] sanitized = Inr sanitized"
| "sanitizeLoop (arg # rest) sanitized =
     (if hasDangerousChar arg then Inl (''Dangerous character in git log arg: '' @ arg)
      else if startsWith arg ''--'' then
        (if flagOf arg \<notin> set ALLOWED_GIT_LOG_FLAGS
         then Inl (''Disallowed git log flag: '' @ flagOf arg)
         else sanitizeLoop rest (sanitized @ [arg]))
      else if arg = ''-n'' then
        (case rest of
           [] \<Rightarrow> Inr (sanitized @ [arg])
         | next # rest' \<Rightarrow>
             (case parseInt10 next of
                None \<Rightarrow> Inl (''Invalid -n value: '' @ next)
              | Some n \<Rightarrow>
                  if n < 1 then Inl (''Invalid -n value: '' @ next)
                  else sanitizeLoop rest' (sanitized @ [arg, String (min n 50)])))
      else if startsWith arg ''-'' \<and> length arg = 2
      then Inl (''Disallowed git log flag: '' @ arg)
      else sanitizeLoop rest (sanitized @ [arg]))"

definition sanitizeGitLogArgs :: "string list \<Rightarrow> string list Result" where
  "sanitizeGitLogArgs args = sanitizeLoop args []"

definition isLongSingleDash :: "string \<Rightarrow> bool" where
  \<comment> \<open>an argument that begins with one dash, not two, and has more than two code units\<close>
  "isLongSingleDash a = (startsWith a ''-'' \<and> \<not> startsWith a ''--'' \<and> 2 < length a)"

definition liftR :: "string list \<Rightarrow> string list Result \<Rightarrow> string list Result" where
  \<comment> \<open>a result of the loop, seen from a longer list \<open>sanitized\<close>\<close>
  "liftR acc r = (case r of Inl e \<Rightarrow> Inl e | Inr out \<Rightarrow> Inr (acc @ out))"

section \<open>Commit parser (lib/parser.ts)\<close>

text \<open>
  The regular expressions are modelled by the deterministic matchers they amount to: in
  each of them a greedy repetition is followed by something its own class excludes, so
  backtracking never finds a second way to match. \<open>None\<close> is the null of \<open>exec\<close>.
\<close>

fun splitLines :: "string \<Rightarrow> string list" where
  \<comment> \<open>\<open>s.split("\n")\<close>: never empty, the empty string gives one empty line\<close>
  "splitLines [] = [[]]"
| "splitLines (c # cs) =
     (if c = CHR 0x0A then [] # splitLines cs
      else (case splitLines cs of [] \<Rightarrow> [[c]] | l # ls \<Rightarrow> (c # l) # ls))"

fun joinLines :: "string list \<Rightarrow> string" where
  \<comment> \<open>\<open>lines.join("\n")\<close>\<close>
  "joinLines [] = []"
| "joinLines [l] = l"
| "joinLines (l # ls) = l @ [CHR 0x0A] @ joinLines ls"

fun splitComma :: "string \<Rightarrow> string list" where
  \<comment> \<open>\<open>s.split(",")\<close>\<close>
  "splitComma [] = [[]]"
| "splitComma (c # cs) =
     (if c = CHR '','' then [] # splitComma cs
      else (case splitComma cs of [] \<Rightarrow> [[c]] | l # ls \<Rightarrow> (c # l) # ls))"

definition isLetter :: "char \<Rightarrow> bool" where
  \<comment> \<open>the class \<open>[A-Za-z]\<close>\<close>
  "isLetter c = (c \<in> set ''ABCDEFGHIJKLMNOPQRSTUVWXYZabcdefghijklmnopqrstuvwxyz'')"

definition CONVENTIONAL_TYPES :: "string list" where
  \<comment> \<open>the alternatives of the first group of HEADER_RE, in its order\<close>
  "CONVENTIONAL_TYPES =
     [''feat'', ''fix'', ''refactor'', ''perf'', ''docs'', ''test'', ''build'', ''ci'', ''chore'',
      ''revert'']"

definition restOfLine :: "string \<Rightarrow> string option" where
  \<comment> \<open>a greedy white space run, then \<open>(.+)$\<close>: the run gives back its last code unit only
      when nothing else is left; the dot refuses a line terminator. The argument is the
      input from the white space run on; the result is the captured group.\<close>
  "restOfLine s =
     (let w = takeWhile isWhiteSpace s; r = dropWhile isWhiteSpace s
      in if r \<noteq> [] then (if list_ex isLineTerminator r then None else Some r)
         else if w \<noteq> [] \<and> \<not> isLineTerminator (last w) then Some [last w]
         else None)"

definition headerMatch :: "string \<Rightarrow> (string \<times> string option \<times> string) option" where
  \<comment> \<open>\<open>HEADER_RE.exec(s)\<close>: the groups type, scope (\<open>None\<close> for undefined), subject\<close>
  "headerMatch s =
     (case find (\<lambda>t. startsWith s t) CONVENTIONAL_TYPES of
        None \<Rightarrow> None
      | Some t \<Rightarrow>
          (let r1 = drop (length t) s;
               inner = takeWhile (\<lambda>c. c \<noteq> CHR '')'') (drop 1 r1);
               after = dropWhile (\<lambda>c. c \<noteq> CHR '')'') (drop 1 r1);
               grouped = (startsWith r1 ''('' \<and> inner \<noteq> [] \<and> startsWith after '')'');
               sc = (if grouped then Some inner else None);
               r2 = (if grouped then drop 1 after else r1);
               r3 = (if startsWith r2 ''!'' then drop 1 r2 else r2)
           in if \<not> startsWith r3 '':'' then None
              else if takeWhile isWhiteSpace (drop 1 r3) = [] then None
              else (case restOfLine (drop 1 r3) of
                      None \<Rightarrow> None
                    | Some subj \<Rightarrow>
                        if dropWhile isWhiteSpace (drop 1 r3) = []
                           \<and> length (takeWhile isWhiteSpace (drop 1 r3)) < 2
                        then None
                        else Some (t, sc, subj))))"

definition trailerMatch :: "string \<Rightarrow> (string \<times> string) option" where
  \<comment> \<open>\<open>TRAILER_RE.exec(s)\<close>: the groups key and value\<close>
  "trailerMatch s =
     (case s of
        [] \<Rightarrow> None
      | c # cs \<Rightarrow>
          if \<not> isLetter c then None
          else (let k = c # takeWhile (\<lambda>x. isLetter x \<or> x = CHR ''-'') cs;
                    r1 = dropWhile (\<lambda>x. isLetter x \<or> x = CHR ''-'') cs;
                    r2 = dropWhile isWhiteSpace r1
                in if \<not> startsWith r2 '':'' then None
                   else (case restOfLine (drop 1 r2) of
                           None \<Rightarrow> None
                         | Some v \<Rightarrow> Some (k, v))))"

definition KNOWN_TRAILER_KEYS :: "string list" where
  \<comment> \<open>Modelled from the spec: the constant KNOWN_TRAILER_KEYS of types.ts, which is not
      among the sources; the specification lists the known keys.\<close>
  "KNOWN_TRAILER_KEYS =
     [''intent'', ''scope'', ''decided-against'', ''session'', ''refs'', ''context'', ''breaking'',
      ''signed-off-by'', ''co-authored-by'']"

definition INTENT_TYPES :: "string list" where
  "INTENT_TYPES =
     [''enable-capability'', ''fix-defect'', ''improve-quality'', ''restructure'',
      ''configure-infra'', ''document'', ''explore'', ''resolve-blocker'']"

definition isIntentType :: "string \<Rightarrow> bool" where
  "isIntentType v = (v \<in> set INTENT_TYPES)"

definition isKnownTrailer :: "string \<Rightarrow> bool" where
  \<comment> \<open>\<open>match && KNOWN_TRAILER_KEYS.has(match[1].toLowerCase())\<close> for \<open>TRAILER_RE.exec(s)\<close>\<close>
  "isKnownTrailer s =
     (case trailerMatch s of
        None \<Rightarrow> False
      | Some (k, v) \<Rightarrow> toLowerCase k \<in> set KNOWN_TRAILER_KEYS)"

fun parseTrailersLoop ::
  "string list \<Rightarrow> (string \<rightharpoonup> string list) \<Rightarrow> (string \<rightharpoonup> string list)" where
  \<comment> \<open>the loop of parseTrailers over the lines, with the record \<open>trailers\<close> so far\<close>
  "parseTrailersLoop [] trailers = trailers"
| "parseTrailersLoop (line # rest) trailers =
     (case trailerMatch (trim line) of
        None \<Rightarrow> parseTrailersLoop rest trailers
      | Some (k, v) \<Rightarrow>
          (let normalizedKey = toLowerCase k
           in if normalizedKey \<notin> set KNOWN_TRAILER_KEYS then parseTrailersLoop rest trailers
              else parseTrailersLoop rest
                     (trailers(normalizedKey \<mapsto>
                        (case trailers normalizedKey of None \<Rightarrow> [] | Some vs \<Rightarrow> vs) @ [trim v]))))"

definition parseTrailers :: "string list \<Rightarrow> (string \<rightharpoonup> string list)" where
  "parseTrailers lines = parseTrailersLoop lines Map.empty"

function skipBlank :: "string list \<Rightarrow> int \<Rightarrow> int" where
  \<comment> \<open>\<open>while (i >= 0 && lines[i].trim() === "") i--\<close>; gives the final i\<close>
  "skipBlank lines i =
     (if 0 \<le> i \<and> i < int (length lines) \<and> trim (lines ! nat i) = []
      then skipBlank lines (i - 1) else i)"
  by pat_completeness auto
termination
  by (relation "measure (\<lambda>(lines, i). nat (i + 1))") auto

declare skipBlank.simps [simp del]

function scanTrailers :: "string list \<Rightarrow> int \<Rightarrow> int \<Rightarrow> int" where
  \<comment> \<open>the second while loop of splitHeaderBodyTrailers, from index i with the current
      \<open>trailerStart\<close>; gives the final \<open>trailerStart\<close>\<close>
  "scanTrailers lines i trailerStart =
     (if \<not> (0 \<le> i \<and> i < int (length lines)) then trailerStart
      else if trim (lines ! nat i) = [] then
        (let j = skipBlank lines (i - 1)
         in if 0 \<le> j \<and> isKnownTrailer (trim (lines ! nat j))
            then scanTrailers lines (i - 1) trailerStart
            else trailerStart)
      else if isKnownTrailer (trim (lines ! nat i)) then scanTrailers lines (i - 1) i
      else int (length lines))"
  by pat_completeness auto
termination
  by (relation "measure (\<lambda>(lines, i, t). nat (i + 1))") auto

declare scanTrailers.simps [simp del]

definition trailerStartOf :: "string list \<Rightarrow> nat" where
  \<comment> \<open>the value of \<open>trailerStart\<close> after both loops\<close>
  "trailerStartOf lines =
     nat (scanTrailers lines (skipBlank lines (int (length lines) - 1)) (int (length lines)))"

definition splitHeaderBodyTrailers :: "string \<Rightarrow> string \<times> string list" where
  \<comment> \<open>the pair (body, trailerLines)\<close>
  "splitHeaderBodyTrailers rawBody =
     (let lines = splitLines rawBody;
          trailerStart = trailerStartOf lines
      in (trim (joinLines (take trailerStart lines)),
          filter (\<lambda>l. l \<noteq> []) (map trim (drop trailerStart lines))))"

text \<open>
  A ParseError is built with \<open>ParseError.make hash reason raw\<close>, its fields in the order
  of the declaration.
\<close>

record ParseError =
  hash :: string
  reason :: string
  raw :: string

text \<open>The field \<open>context\<close> of the source is \<open>contextObj\<close> here, the name being reserved.\<close>

record 'j StructuredCommit =
  hash :: string
  date :: string
  type :: string
  headerScope :: "string option"
  subject :: string
  body :: string
  intent :: "string option"
  scope :: "string list"
  decidedAgainst :: "string list"
  session :: "string option"
  refs :: "string list"
  contextObj :: "'j option"
  breaking :: "string option"
  raw :: string

definition firstValue :: "(string \<rightharpoonup> string list) \<Rightarrow> string \<Rightarrow> string option" where
  \<comment> \<open>\<open>trailers[key]?.[0] ?? null\<close>\<close>
  "firstValue trailers k =
     (case trailers k of None \<Rightarrow> None | Some [] \<Rightarrow> None | Some (v # vs) \<Rightarrow> Some v)"

definition commaList :: "string option \<Rightarrow> string list" where
  \<comment> \<open>\<open>raw ? raw.split(",").map((s) => s.trim()).filter(Boolean) : []\<close>\<close>
  "commaList rawValue =
     (case rawValue of
        None \<Rightarrow> []
      | Some r \<Rightarrow> if r = [] then [] else filter (\<lambda>x. x \<noteq> []) (map trim (splitComma r)))"

definition missingReason :: string where
  "missingReason = ''Missing required fields (Hash, Date, or Subject)''"

definition nonConventionalReason :: "string \<Rightarrow> string" where
  "nonConventionalReason fullSubject =
     ''Subject doesn'' @ [CHR 0x27] @ ''t match Conventional Commits format: ''
       @ [CHR 0x22] @ fullSubject @ [CHR 0x22]"

definition findIndex :: "('a \<Rightarrow> bool) \<Rightarrow> 'a list \<Rightarrow> int" where
  \<comment> \<open>\<open>xs.findIndex(f)\<close>: -1 when no element passes\<close>
  "findIndex f xs = (if list_ex f xs then int (length (takeWhile (\<lambda>x. \<not> f x) xs)) else -1)"

definition parseCommitBlock ::
  "(string \<Rightarrow> 'j option) \<Rightarrow> string \<Rightarrow> ParseError + 'j StructuredCommit" where
  \<comment> \<open>The first argument stands for parseContextJson, that is for the JSON parser of the
      platform: it gives the parsed object, or \<open>None\<close> where parseContextJson gives null.
      The local names end in V where the source's name is a field name.\<close>
  "parseCommitBlock parseContextJson block =
     (let lines = splitLines (trim block);
          hashLine = find (\<lambda>l. startsWith l ''Hash: '') lines;
          dateLine = find (\<lambda>l. startsWith l ''Date: '') lines;
          subjectLine = find (\<lambda>l. startsWith l ''Subject: '') lines
      in case (hashLine, dateLine, subjectLine) of
           (Some hl, Some dl, Some sl) \<Rightarrow>
             (let hashV = trim (drop 6 hl);
                  dateV = trim (drop 6 dl);
                  fullSubject = trim (drop 9 sl)
              in case headerMatch fullSubject of
                   None \<Rightarrow> Inl (ParseError.make hashV (nonConventionalReason fullSubject) block)
                 | Some (typeV, headerScopeV, subjectV) \<Rightarrow>
                     (let subjectIndex = findIndex (\<lambda>l. startsWith l ''Subject: '') lines;
                          rawBody = joinLines (drop (nat (subjectIndex + 1)) lines);
                          bodyV = fst (splitHeaderBodyTrailers rawBody);
                          trailerLines = snd (splitHeaderBodyTrailers rawBody);
                          trailers = parseTrailers trailerLines;
                          intentRaw = firstValue trailers ''intent'';
                          contextRaw = firstValue trailers ''context''
                      in Inr \<lparr>hash = hashV, date = dateV, type = typeV,
                              headerScope = headerScopeV, subject = subjectV, body = bodyV,
                              intent = (case intentRaw of
                                          None \<Rightarrow> None
                                        | Some v \<Rightarrow> if v \<noteq> [] \<and> isIntentType v then Some v else None),
                              scope = commaList (firstValue trailers ''scope''),
                              decidedAgainst =
                                (case trailers ''decided-against'' of None \<Rightarrow> [] | Some vs \<Rightarrow> vs),
                              session = firstValue trailers ''session'',
                              refs = commaList (firstValue trailers ''refs''),
                              contextObj = (case contextRaw of
                                            None \<Rightarrow> None
                                          | Some v \<Rightarrow> if v = [] then None else parseContextJson v),
                              breaking = firstValue trailers ''breaking'',
                              raw = block\<rparr>))
         | _ \<Rightarrow>
             Inl (ParseError.make
                    (case hashLine of None \<Rightarrow> ''unknown'' | Some hl \<Rightarrow> drop 6 hl)
                    missingReason block))"

definition blankOrTrailer :: "string \<Rightarrow> bool" where
  \<comment> \<open>a line the backward scan passes over: blank, or a trailer with a known key\<close>
  "blankOrTrailer l = (trim l = [] \<or> isKnownTrailer (trim l))"

definition hasLine :: "string \<Rightarrow> string \<Rightarrow> bool" where
  \<comment> \<open>the trimmed block has a line that starts with the prefix\<close>
  "hasLine block prefix = list_ex (\<lambda>l. startsWith l prefix) (splitLines (trim block))"

definition subjectText :: "string \<Rightarrow> string" where
  \<comment> \<open>the text after \<open>Subject: \<close> on the first such line, trimmed\<close>
  "subjectText block =
     (case find (\<lambda>l. startsWith l ''Subject: '') (splitLines (trim block)) of
        None \<Rightarrow> []
      | Some sl \<Rightarrow> trim (drop 9 sl))"

definition webhookBody :: "string list" where
  \<comment> \<open>the lines after the subject in the scenario of the specification\<close>
  "webhookBody =
     [''Configure via WEBHOOK_URL: https://example.com'',
      [],
      ''Intent: enable-capability'',
      ''Scope: api/webhooks'']"

definition webhookBlock :: string where
  "webhookBlock = joinLines
     ([''Hash: abc123def456'',
       ''Date: 2025-02-08T10:30:00+00:00'',
       ''Subject: feat(api): add webhook delivery'',
       []] @ webhookBody)"

section \<open>Configuration (lib/rlm-config.ts)\<close>

text \<open>
  The interface RlmConfig of the source has the six fields below and no other. The value
  read from the file is a JSON object: the list of its properties.
\<close>

record RlmConfig =
  version :: int
  enabled :: bool
  endpoint :: string
  model :: string
  timeoutMs :: int
  maxTokens :: int

datatype jsValue = JBool bool | JNum int | JStr string | JOther

definition DEFAULT_CONFIG :: RlmConfig where
  "DEFAULT_CONFIG =
     \<lparr>version = 1, enabled = False, endpoint = ''http://localhost:11434'',
      model = ''qwen2.5:7b'', timeoutMs = 5000, maxTokens = 256\<rparr>"

definition loadRlmConfig ::
  "string Result \<Rightarrow> (string \<Rightarrow> string option) \<Rightarrow> (string \<Rightarrow> (string \<times> jsValue) list option)
     \<Rightarrow> RlmConfig" where
  \<comment> \<open>The arguments are the effects of the function: the result of getConfigPath, the
      file read (\<open>None\<close> when Deno.readTextFile throws: a missing or unreadable file) and
      JSON.parse followed by the reads of \<open>data\<close> (\<open>None\<close> when one of them throws).\<close>
  "loadRlmConfig pathResult readTextFile jsonParse =
     (case pathResult of
        Inl e \<Rightarrow> DEFAULT_CONFIG
      | Inr path \<Rightarrow>
          (case readTextFile path of
             None \<Rightarrow> DEFAULT_CONFIG
           | Some content \<Rightarrow>
               (case jsonParse content of
                  None \<Rightarrow> DEFAULT_CONFIG
                | Some data \<Rightarrow>
                    if map_of data ''version'' \<noteq> Some (JNum 1) then DEFAULT_CONFIG
                    else \<lparr>version = 1,
                          enabled = (case map_of data ''enabled'' of
                                       Some (JBool b) \<Rightarrow> b | _ \<Rightarrow> enabled DEFAULT_CONFIG),
                          endpoint = (case map_of data ''endpoint'' of
                                        Some (JStr s) \<Rightarrow> s | _ \<Rightarrow> endpoint DEFAULT_CONFIG),
                          model = (case map_of data ''model'' of
                                     Some (JStr s) \<Rightarrow> s | _ \<Rightarrow> model DEFAULT_CONFIG),
                          timeoutMs = (case map_of data ''timeoutMs'' of
                                         Some (JNum n) \<Rightarrow> n | _ \<Rightarrow> timeoutMs DEFAULT_CONFIG),
                          maxTokens = (case map_of data ''maxTokens'' of
                                         Some (JNum n) \<Rightarrow> n | _ \<Rightarrow> maxTokens DEFAULT_CONFIG)\<rparr>)))"

definition ownProperties :: "RlmConfig \<Rightarrow> (string \<times> jsValue) list" where
  \<comment> \<open>the config object as the list of its properties\<close>
  "ownProperties c =
     [(''version'', JNum (RlmConfig.version c)), (''enabled'', JBool (enabled c)),
      (''endpoint'', JStr (endpoint c)), (''model'', JStr (model c)),
      (''timeoutMs'', JNum (timeoutMs c)), (''maxTokens'', JNum (maxTokens c))]"

section \<open>Code extraction (lib/rlm-code-extractor.ts)\<close>

definition wsThenEol :: "string \<Rightarrow> nat option" where
  \<comment> \<open>\<open>\s*$\<close> under the flag m, at the start of the argument: the length of the longest
      white space run after which the input ends or a line terminator follows\<close>
  "wsThenEol t =
     (let w = takeWhile isWhiteSpace t; r = dropWhile isWhiteSpace t
      in if r = [] then Some (length w)
         else if list_ex isLineTerminator w
         then Some (length w - Suc (length (takeWhile (\<lambda>c. \<not> isLineTerminator c) (rev w))))
         else None)"

definition fenceAt :: "string \<Rightarrow> nat option" where
  \<comment> \<open>the open pattern tried at a line start: the three backticks, then the alternatives
      js, javascript and nothing in this order, then \<open>\s*$\<close>; gives the length of the match\<close>
  "fenceAt s =
     (if \<not> startsWith s [CHR 0x60, CHR 0x60, CHR 0x60] then None
      else (let r = drop 3 s
            in case (if startsWith r ''js'' then wsThenEol (drop 2 r) else None) of
                 Some n \<Rightarrow> Some (3 + 2 + n)
               | None \<Rightarrow>
                   (case (if startsWith r ''javascript'' then wsThenEol (drop 10 r) else None) of
                      Some n \<Rightarrow> Some (3 + 10 + n)
                    | None \<Rightarrow>
                        (case wsThenEol r of
                           Some n \<Rightarrow> Some (3 + n)
                         | None \<Rightarrow> None))))"

fun findOpenFence :: "bool \<Rightarrow> string \<Rightarrow> string option" where
  \<comment> \<open>\<open>openPattern.exec\<close> from the current position on; the flag says that the position
      is a line start. Gives \<open>response.slice(codeStart)\<close> for the leftmost match.\<close>
  "findOpenFence atLineStart [] = None"
| "findOpenFence atLineStart (c # t) =
     (case (if atLineStart then fenceAt (c # t) else None) of
        Some n \<Rightarrow> Some (drop n (c # t))
      | None \<Rightarrow> findOpenFence (isLineTerminator c) t)"

definition extractCodeBlock :: "string \<Rightarrow> string option" where
  "extractCodeBlock response =
     (case findOpenFence True response of
        None \<Rightarrow> None
      | Some rest \<Rightarrow>
          (let closeIdx = indexOf rest [CHR 0x0A, CHR 0x60, CHR 0x60, CHR 0x60];
               code = (if closeIdx \<ge> 0 then take (nat closeIdx) rest else rest);
               trimmed = trim code
           in if length trimmed > 0 then Some trimmed else None))"

section \<open>Trailer index query (worker source of rlm-sandbox.ts)\<close>

text \<open>
  A plain JavaScript object is the list of its own enumerable properties, in the order
  \<open>Object.entries\<close> enumerates them. A read \<open>obj[key]\<close> finds an own property, or a
  property that every plain object inherits from \<open>Object.prototype\<close>, or nothing.
\<close>

record IndexedCommit =
  hash :: string
  date :: string
  subject :: string
  intent :: "string option"
  scope :: "string list"
  session :: "string option"
  decidedAgainst :: "string list"

record TrailerIndex =
  version :: int
  generated :: string
  headCommit :: string
  commitCount :: int
  byIntent :: "(string \<times> string list) list"
  byScope :: "(string \<times> string list) list"
  bySession :: "(string \<times> string list) list"
  withDecidedAgainst :: "string list"
  commits :: "(string \<times> IndexedCommit) list"

record QueryParams =
  p_scope :: "string option"
  p_intents :: "string list option"
  p_session :: "string option"
  p_decidedAgainst :: "string option"
  p_limit :: "int option"

datatype 'a property = Own 'a | Inherited | Absent

definition objectPrototypeNames :: "string list" where
  "objectPrototypeNames =
     [''constructor'', ''__proto__'', ''hasOwnProperty'', ''isPrototypeOf'',
      ''propertyIsEnumerable'', ''toLocaleString'', ''toString'', ''valueOf'',
      ''__defineGetter__'', ''__defineSetter__'', ''__lookupGetter__'', ''__lookupSetter__'']"

definition getProperty :: "(string \<times> 'a) list \<Rightarrow> string \<Rightarrow> 'a property" where
  \<comment> \<open>\<open>obj[key]\<close>\<close>
  "getProperty obj k =
     (case map_of obj k of
        Some v \<Rightarrow> Own v
      | None \<Rightarrow> if k \<in> set objectPrototypeNames then Inherited else Absent)"

definition TypeError :: string where
  \<comment> \<open>the exception thrown when a value that is not iterable is iterated, or a property
      of \<open>undefined\<close> is read\<close>
  "TypeError = ''TypeError''"

definition isWordChar :: "char \<Rightarrow> bool" where
  \<comment> \<open>the class \<open>\\w\<close>\<close>
  "isWordChar c =
     (c \<in> set ''ABCDEFGHIJKLMNOPQRSTUVWXYZabcdefghijklmnopqrstuvwxyz0123456789_'')"

definition wordCharAt :: "string \<Rightarrow> int \<Rightarrow> bool" where
  "wordCharAt text i = (0 \<le> i \<and> i < int (length text) \<and> isWordChar (text ! nat i))"

definition wordBoundaryAt :: "string \<Rightarrow> nat \<Rightarrow> bool" where
  \<comment> \<open>the assertion \<open>\\b\<close> at position i\<close>
  "wordBoundaryAt text i = (wordCharAt text (int i - 1) \<noteq> wordCharAt text (int i))"

definition matchesIgnoreCaseAt :: "string \<Rightarrow> nat \<Rightarrow> string \<Rightarrow> bool" where
  \<comment> \<open>the literal \<open>kw\<close> at position i under the flag \<open>i\<close>\<close>
  "matchesIgnoreCaseAt text i kw =
     (i + length kw \<le> length text \<and>
      map toLowerChar (take (length kw) (drop i text)) = map toLowerChar kw)"

definition wordBoundaryMatch :: "string \<Rightarrow> string \<Rightarrow> bool" where
  \<comment> \<open>\<open>kw\<close> is escaped, so the pattern is: boundary, the literal, boundary\<close>
  "wordBoundaryMatch text kw =
     list_ex (\<lambda>i. wordBoundaryAt text i \<and> matchesIgnoreCaseAt text i kw
                    \<and> wordBoundaryAt text (i + length kw))
             [0 ..< Suc (length text)]"

definition setAdd :: "string list \<Rightarrow> string \<Rightarrow> string list" where
  \<comment> \<open>\<open>s.add(h)\<close> on a Set, kept as the list of its elements in insertion order\<close>
  "setAdd s h = (if h \<in> set s then s else s @ [h])"

definition newSet :: "string list \<Rightarrow> string list" where
  \<comment> \<open>\<open>new Set(hs)\<close>\<close>
  "newSet hs = foldl setAdd [] hs"

definition intersect :: "string list \<Rightarrow> string list option \<Rightarrow> string list option" where
  \<comment> \<open>the closure \<open>intersect\<close>; \<open>cands\<close> is \<open>None\<close> for null\<close>
  "intersect hs cands =
     (let s = newSet hs
      in case cands of
           None \<Rightarrow> Some s
         | Some cs \<Rightarrow> Some (filter (\<lambda>h. h \<in> set s) cs))"

fun intentHashes :: "TrailerIndex \<Rightarrow> string list \<Rightarrow> string list \<Rightarrow> string list Result" where
  \<comment> \<open>the loop over \<open>p.intents\<close> that fills the Set \<open>ih\<close>\<close>
  "intentHashes idx [] ih = Inr ih"
| "intentHashes idx (i # rest) ih =
     (case getProperty (byIntent idx) i of
        Inherited \<Rightarrow> Inl TypeError
      | Absent \<Rightarrow> intentHashes idx rest ih
      | Own hs \<Rightarrow> intentHashes idx rest (foldl setAdd ih hs))"

fun decidedAgainstHashes ::
  "TrailerIndex \<Rightarrow> string \<Rightarrow> string list \<Rightarrow> string list \<Rightarrow> string list Result" where
  \<comment> \<open>the loop over \<open>idx.withDecidedAgainst\<close> that fills the array \<open>m\<close>\<close>
  "decidedAgainstHashes idx kw [] m = Inr m"
| "decidedAgainstHashes idx kw (h # rest) m =
     (case getProperty (commits idx) h of
        Inherited \<Rightarrow> Inl TypeError
      | Absent \<Rightarrow> decidedAgainstHashes idx kw rest m
      | Own c \<Rightarrow>
          decidedAgainstHashes idx kw rest
            (if list_ex (\<lambda>d. wordBoundaryMatch d kw) (decidedAgainst c) then m @ [h] else m))"

definition scopeHashes :: "TrailerIndex \<Rightarrow> string \<Rightarrow> string list" where
  \<comment> \<open>the loop over \<open>Object.entries(idx.byScope)\<close> that fills the array \<open>mh\<close>\<close>
  "scopeHashes idx sc = concat (map snd (filter (\<lambda>(sk, hs). scopeMatches sk sc) (byScope idx)))"

definition sliceTo :: "'a list \<Rightarrow> int \<Rightarrow> 'a list" where
  \<comment> \<open>\<open>xs.slice(0, e)\<close>: a negative end counts from the end of the array\<close>
  "sliceTo xs e = (if e < 0 then take (nat (int (length xs) + e)) xs else take (nat e) xs)"

definition truthyIntents :: "string list option \<Rightarrow> string list option" where
  \<comment> \<open>\<open>p.intents && p.intents.length > 0\<close>\<close>
  "truthyIntents v = (case v of None \<Rightarrow> None | Some is \<Rightarrow> if is = [] then None else Some is)"

definition limitOrDefault :: "int option \<Rightarrow> int" where
  \<comment> \<open>\<open>p.limit || 20\<close>\<close>
  "limitOrDefault l = (case l of None \<Rightarrow> 20 | Some n \<Rightarrow> if n = 0 then 20 else n)"

definition intentsStep :: "TrailerIndex \<Rightarrow> QueryParams \<Rightarrow> string list option Result" where
  "intentsStep idx p =
     (case truthyIntents (p_intents p) of
        None \<Rightarrow> Inr None
      | Some is \<Rightarrow>
          (case intentHashes idx is [] of
             Inl e \<Rightarrow> Inl e
           | Inr ih \<Rightarrow> Inr (intersect ih None)))"

definition sessionStep ::
  "TrailerIndex \<Rightarrow> QueryParams \<Rightarrow> string list option \<Rightarrow> string list option Result" where
  "sessionStep idx p cands =
     (case truthy (p_session p) of
        None \<Rightarrow> Inr cands
      | Some s \<Rightarrow>
          (case getProperty (bySession idx) s of
             Inherited \<Rightarrow> Inl TypeError
           | Absent \<Rightarrow> Inr (intersect [] cands)
           | Own hs \<Rightarrow> Inr (intersect hs cands)))"

definition decidedAgainstStep ::
  "TrailerIndex \<Rightarrow> QueryParams \<Rightarrow> string list option \<Rightarrow> string list option Result" where
  "decidedAgainstStep idx p cands =
     (case truthy (p_decidedAgainst p) of
        None \<Rightarrow> Inr cands
      | Some kw \<Rightarrow>
          (case decidedAgainstHashes idx kw (withDecidedAgainst idx) [] of
             Inl e \<Rightarrow> Inl e
           | Inr m \<Rightarrow> Inr (intersect m cands)))"

definition scopeStep :: "TrailerIndex \<Rightarrow> QueryParams \<Rightarrow> string list option \<Rightarrow> string list option" where
  "scopeStep idx p cands =
     (case truthy (p_scope p) of
        None \<Rightarrow> cands
      | Some sc \<Rightarrow> intersect (scopeHashes idx sc) cands)"

definition queryIndexForHashes :: "TrailerIndex \<Rightarrow> QueryParams \<Rightarrow> string list Result" where
  \<comment> \<open>the four filters in the order of the source, an exception ending the call, then
      the null test and the slice\<close>
  "queryIndexForHashes idx p =
     (case intentsStep idx p of
        Inl e \<Rightarrow> Inl e
      | Inr c1 \<Rightarrow>
          (case sessionStep idx p c1 of
             Inl e \<Rightarrow> Inl e
           | Inr c2 \<Rightarrow>
               (case decidedAgainstStep idx p c2 of
                  Inl e \<Rightarrow> Inl e
                | Inr c3 \<Rightarrow>
                    (case scopeStep idx p c3 of
                       None \<Rightarrow> Inr []
                     | Some cands \<Rightarrow> Inr (sliceTo cands (limitOrDefault (p_limit p)))))))"

subsection \<open>The query as the specification words it\<close>

definition lookupHashes :: "(string \<times> string list) list \<Rightarrow> string \<Rightarrow> string list" where
  \<comment> \<open>the bucket stored under a key, empty when there is none\<close>
  "lookupHashes obj k = (case map_of obj k of None \<Rightarrow> [] | Some hs \<Rightarrow> hs)"

definition matchesIntents :: "TrailerIndex \<Rightarrow> string list \<Rightarrow> string \<Rightarrow> bool" where
  \<comment> \<open>member of byIntent[i] for some given intent i\<close>
  "matchesIntents idx is h = list_ex (\<lambda>i. h \<in> set (lookupHashes (byIntent idx) i)) is"

definition matchesSession :: "TrailerIndex \<Rightarrow> string \<Rightarrow> string \<Rightarrow> bool" where
  \<comment> \<open>member of bySession[session]\<close>
  "matchesSession idx s h = (h \<in> set (lookupHashes (bySession idx) s))"

definition matchesDecidedAgainst :: "TrailerIndex \<Rightarrow> string \<Rightarrow> string \<Rightarrow> bool" where
  \<comment> \<open>a commit in withDecidedAgainst with a decidedAgainst entry matching the keyword at a
      word boundary\<close>
  "matchesDecidedAgainst idx kw h =
     (h \<in> set (withDecidedAgainst idx) \<and>
      (case map_of (commits idx) h of
         None \<Rightarrow> False
       | Some c \<Rightarrow> list_ex (\<lambda>d. wordBoundaryMatch d kw) (decidedAgainst c)))"

definition matchesScope :: "TrailerIndex \<Rightarrow> string \<Rightarrow> string \<Rightarrow> bool" where
  \<comment> \<open>member of byScope[k] for some stored key k with scopeMatches(k, scope)\<close>
  "matchesScope idx sc h = list_ex (\<lambda>(k, hs). scopeMatches k sc \<and> h \<in> set hs) (byScope idx)"

definition satisfiesAll :: "TrailerIndex \<Rightarrow> QueryParams \<Rightarrow> string \<Rightarrow> bool" where
  \<comment> \<open>the hash satisfies every present filter\<close>
  "satisfiesAll idx p h =
     ((case truthyIntents (p_intents p) of None \<Rightarrow> True | Some is \<Rightarrow> matchesIntents idx is h) \<and>
      (case truthy (p_session p) of None \<Rightarrow> True | Some s \<Rightarrow> matchesSession idx s h) \<and>
      (case truthy (p_decidedAgainst p) of None \<Rightarrow> True | Some kw \<Rightarrow> matchesDecidedAgainst idx kw h) \<and>
      (case truthy (p_scope p) of None \<Rightarrow> True | Some sc \<Rightarrow> matchesScope idx sc h))"

definition anyFilter :: "QueryParams \<Rightarrow> bool" where
  "anyFilter p =
     (truthyIntents (p_intents p) \<noteq> None \<or> truthy (p_session p) \<noteq> None \<or>
      truthy (p_decidedAgainst p) \<noteq> None \<or> truthy (p_scope p) \<noteq> None)"

definition insertionOrder :: "TrailerIndex \<Rightarrow> QueryParams \<Rightarrow> string list" where
  \<comment> \<open>the hashes in the order the first present filter inserts them into the candidate set\<close>
  "insertionOrder idx p =
     (case truthyIntents (p_intents p) of
        Some is \<Rightarrow> concat (map (lookupHashes (byIntent idx)) is)
      | None \<Rightarrow>
     (case truthy (p_session p) of
        Some s \<Rightarrow> lookupHashes (bySession idx) s
      | None \<Rightarrow>
     (case truthy (p_decidedAgainst p) of
        Some kw \<Rightarrow> filter (matchesDecidedAgainst idx kw) (withDecidedAgainst idx)
      | None \<Rightarrow>
     (case truthy (p_scope p) of
        Some sc \<Rightarrow> scopeHashes idx sc
      | None \<Rightarrow> []))))"

definition lookupsOwn :: "TrailerIndex \<Rightarrow> QueryParams \<Rightarrow> bool" where
  \<comment> \<open>no name the query reads from an object of the index is found on Object.prototype
      only\<close>
  "lookupsOwn idx p =
     ((case truthyIntents (p_intents p) of
         None \<Rightarrow> True
       | Some is \<Rightarrow> list_all (\<lambda>i. getProperty (byIntent idx) i \<noteq> Inherited) is) \<and>
      (case truthy (p_session p) of
         None \<Rightarrow> True
       | Some s \<Rightarrow> getProperty (bySession idx) s \<noteq> Inherited) \<and>
      (case truthy (p_decidedAgainst p) of
         None \<Rightarrow> True
       | Some kw \<Rightarrow> list_all (\<lambda>h. getProperty (commits idx) h \<noteq> Inherited) (withDecidedAgainst idx)))"

definition orderedMatches :: "TrailerIndex \<Rightarrow> QueryParams \<Rightarrow> string list" where
  \<comment> \<open>the hashes that satisfy every present filter, each once, in insertion order\<close>
  "orderedMatches idx p = filter (satisfiesAll idx p) (newSet (insertionOrder idx p))"

definition commitMatches :: "TrailerIndex \<Rightarrow> string \<Rightarrow> string \<Rightarrow> bool" where
  \<comment> \<open>the test of the decidedAgainst loop on a hash whose commit is an own property\<close>
  "commitMatches idx kw h =
     (case map_of (commits idx) h of
        None \<Rightarrow> False
      | Some c \<Rightarrow> list_ex (\<lambda>d. wordBoundaryMatch d kw) (decidedAgainst c))"

subsection \<open>The index of the test suites (makeIndex)\<close>

definition exampleIndex :: TrailerIndex where
  "exampleIndex =
     \<lparr>version = 1, generated = ''2025-01-01T00:00:00Z'', headCommit = ''abc123'', commitCount = 3,
      byIntent = [(''fix-defect'', [''aaa'', ''bbb'']), (''enable-capability'', [''ccc''])],
      byScope = [(''auth'', [''aaa'', ''ccc'']), (''auth/login'', [''aaa'']), (''cache'', [''bbb''])],
      bySession = [(''s1'', [''aaa'', ''bbb''])],
      withDecidedAgainst = [''bbb''],
      commits =
        [(''aaa'', \<lparr>hash = ''aaa'', date = ''2025-01-03'', subject = ''fix auth bug'',
                    intent = Some ''fix-defect'', scope = [''auth'', ''auth/login''],
                    session = Some ''s1'', decidedAgainst = []\<rparr>),
         (''bbb'', \<lparr>hash = ''bbb'', date = ''2025-01-02'', subject = ''fix cache ttl'',
                    intent = Some ''fix-defect'', scope = [''cache''],
                    session = Some ''s1'', decidedAgainst = [''Redis sentinel'']\<rparr>),
         (''ccc'', \<lparr>hash = ''ccc'', date = ''2025-01-01'', subject = ''add login page'',
                    intent = Some ''enable-capability'', scope = [''auth''],
                    session = None, decidedAgainst = []\<rparr>)]\<rparr>"

definition noParams :: QueryParams where
  \<comment> \<open>the empty parameter object\<close>
  "noParams = \<lparr>p_scope = None, p_intents = None, p_session = None,
                p_decidedAgainst = None, p_limit = None\<rparr>"

section \<open>REPL loop (lib/rlm-repl.ts) and the host side of the sandbox\<close>

text \<open>
  The effects of runRepl are functions on an explicit world \<open>'w\<close>, which stands for
  everything outside the function: the LLM, git, the clock and the worker of the
  sandbox. A call of the LLM or of git log resolves to a Result or rejects. The worker
  runs code the model cannot read, so one \<open>execute\<close> is the tree of what the worker sends
  to the host while \<open>execute\<close> waits: requests, each with the worker's reaction to the
  responses, and at the end either the result message or nothing before the timer of
  \<open>execute\<close> fires. No statement below assumes anything of these functions.

  The frame of the model: the worker has answered the init message; a message of the
  worker reaches the host while an \<open>execute\<close> waits; and the calls the listeners make
  for a request settle before the host goes on.

  The budgets, the counters and the times are numbers of the source, which guards none
  of them: they are rationals here, as every finite double is one. NaN and the
  infinities are not values of the model, and its sums are exact.
\<close>

record ChatMessage =
  role :: string
  content :: string

text \<open>
  The field \<open>done\<close> of the source is \<open>doneFlag\<close> here, the name being reserved; the field
  \<open>returnValue\<close>, which runRepl never reads, is left out.
\<close>

record SandboxOutput =
  stdout :: string
  error :: "string option"
  doneFlag :: bool
  doneAnswer :: "string option"

datatype llmReply = LlmOk string | LlmFail string | LlmThrow string

datatype gitReply = GitOk string | GitFail string | GitThrow string

text \<open>
  A request of the worker is one message, and every listener on the worker handles it
  and posts a response: the listener of the running \<open>execute\<close> and the listeners that
  executions which timed out have left behind. The worker's reaction is a function of
  all the responses, in the order of the listeners.
\<close>

datatype 'w exec =
    Finished SandboxOutput 'w
  | TimedOut 'w
  | LlmRequest "ChatMessage list" "string Result list \<Rightarrow> 'w \<Rightarrow> 'w exec"
  | GitLogRequest "string list" "string Result list \<Rightarrow> 'w \<Rightarrow> 'w exec"

record ReplConfig =
  maxIterations :: rat
  maxLlmCalls :: rat
  timeoutBudgetMs :: rat
  maxOutputTokens :: int

record ReplTraceEntry =
  iteration :: rat
  codeGenerated :: string
  executionResult :: string
  subCallCount :: rat

record ReplResult =
  answer :: string
  iterations :: rat
  llmCalls :: rat
  elapsedMs :: rat
  trace :: "ReplTraceEntry list"

record 'w Effects =
  callLlm :: "'w \<Rightarrow> ChatMessage list \<Rightarrow> int \<Rightarrow> llmReply \<times> 'w"
  execGitLog :: "'w \<Rightarrow> string list \<Rightarrow> gitReply \<times> 'w"
  worker :: "'w \<Rightarrow> string \<Rightarrow> 'w exec"
  now :: "'w \<Rightarrow> rat \<times> 'w"

text \<open>
  The variables of one run: the counter, the trace and the conversation of the source,
  the world, the number of message listeners that executions which timed out have left
  on the worker, and the number of calls of \<open>sandbox.terminate()\<close>.
\<close>

record 'w ReplState =
  llmCallCount :: rat
  traceLog :: "ReplTraceEntry list"
  conversation :: "ChatMessage list"
  world :: 'w
  listeners :: nat
  terminateCalls :: nat

text \<open>
  How one \<open>execute\<close> ends for the host: its promise resolves, or the promise of a
  listener rejects. The listeners are async functions without a try block, and nothing
  handles their promises: Deno ends the process on the uncaught rejection.
\<close>

datatype execEnd = Settled "SandboxOutput Result" | Unhandled string

text \<open>
  How the try block ends: with a return statement, with the exception of a rejected
  root call, or not at all because the process has ended. The loop itself gives \<open>Inl\<close>
  of that when it ends the block, and \<open>Inr\<close> of the state when it is left by \<open>break\<close> or
  by its condition.
\<close>

datatype 'w blockEnd =
    Return "ReplResult Result" "'w ReplState"
  | Raise string "'w ReplState"
  | Died string "'w ReplState"

datatype replOutcome = Resolved "ReplResult Result" | Rejected string | ProcessEnded string

definition nl :: string where
  "nl = [CHR 0x0A]"

definition llmBudgetLeft :: "ReplConfig \<Rightarrow> 'w ReplState \<Rightarrow> bool" where
  "llmBudgetLeft replConfig st = (llmCallCount st < maxLlmCalls replConfig)"

definition budgetExhausted ::
  "'w Effects \<Rightarrow> ReplConfig \<Rightarrow> rat \<Rightarrow> 'w ReplState \<Rightarrow> bool \<times> 'w ReplState" where
  \<comment> \<open>reads the clock; the third argument is \<open>startTime\<close>\<close>
  "budgetExhausted eff replConfig startTime st =
     (let (t, w) = now eff (world st)
      in (t - startTime > timeoutBudgetMs replConfig, st\<lparr>world := w\<rparr>))"

definition trackedLlmCall ::
  "'w Effects \<Rightarrow> RlmConfig \<Rightarrow> ReplConfig \<Rightarrow> ChatMessage list \<Rightarrow> 'w ReplState
     \<Rightarrow> llmReply \<times> 'w ReplState" where
  \<comment> \<open>the wrapper for the sub-calls: it settles as the call of the LLM does\<close>
  "trackedLlmCall eff rlmConfig replConfig messages st =
     (if \<not> llmBudgetLeft replConfig st then (LlmFail ''LLM call budget exhausted'', st)
      else (let st1 = st\<lparr>llmCallCount := llmCallCount st + 1\<rparr>;
                (reply, w) = callLlm eff (world st1) messages (maxTokens rlmConfig)
            in (reply, st1\<lparr>world := w\<rparr>)))"

fun onLlmRequest ::
  "'w Effects \<Rightarrow> RlmConfig \<Rightarrow> ReplConfig \<Rightarrow> ChatMessage list \<Rightarrow> nat \<Rightarrow> 'w ReplState
     \<Rightarrow> llmReply list \<times> 'w ReplState" where
  \<comment> \<open>the message \<open>llm-request\<close> dispatched to n listeners, one after the other: each
      calls \<open>onLlmCall\<close>, which tests the budget, counts and starts its call\<close>
  "onLlmRequest eff rlmConfig replConfig messages 0 st = ([], st)"
| "onLlmRequest eff rlmConfig replConfig messages (Suc n) st =
     (let (r, st1) = trackedLlmCall eff rlmConfig replConfig messages st;
          (rs, st2) = onLlmRequest eff rlmConfig replConfig messages n st1
      in (r # rs, st2))"

fun onGitLogRequest ::
  "'w Effects \<Rightarrow> string list \<Rightarrow> nat \<Rightarrow> 'w \<Rightarrow> gitReply list \<times> 'w" where
  \<comment> \<open>the message \<open>gitlog-request\<close> with sanitized arguments dispatched to n listeners:
      each calls \<open>onGitLog\<close>\<close>
  "onGitLogRequest eff sanitized 0 w = ([], w)"
| "onGitLogRequest eff sanitized (Suc n) w =
     (let (r, w1) = execGitLog eff w sanitized;
          (rs, w2) = onGitLogRequest eff sanitized n w1
      in (r # rs, w2))"

fun llmRejection :: "llmReply list \<Rightarrow> string option" where
  \<comment> \<open>the first rejection among the calls of the listeners\<close>
  "llmRejection [] = None"
| "llmRejection (LlmThrow e # rs) = Some e"
| "llmRejection (r # rs) = llmRejection rs"

fun gitRejection :: "gitReply list \<Rightarrow> string option" where
  "gitRejection [] = None"
| "gitRejection (GitThrow e # rs) = Some e"
| "gitRejection (r # rs) = gitRejection rs"

fun llmResultOf :: "llmReply \<Rightarrow> string Result" where
  \<comment> \<open>the field \<open>result\<close> of the response a listener posts for a call that resolved\<close>
  "llmResultOf (LlmOk v) = Inr v"
| "llmResultOf (LlmFail e) = Inl e"
| "llmResultOf (LlmThrow e) = Inl e"

fun gitResultOf :: "gitReply \<Rightarrow> string Result" where
  "gitResultOf (GitOk v) = Inr v"
| "gitResultOf (GitFail e) = Inl e"
| "gitResultOf (GitThrow e) = Inl e"

primrec runExec ::
  "'w Effects \<Rightarrow> RlmConfig \<Rightarrow> ReplConfig \<Rightarrow> 'w exec \<Rightarrow> 'w ReplState
     \<Rightarrow> execEnd \<times> 'w ReplState" where
  \<comment> \<open>\<open>sandbox.execute(code)\<close> on the host: the listener execute adds, and those left
      on the worker, run over what the worker sends. The result message makes every
      listener remove itself; the timer resolves the promise and removes nothing.\<close>
  "runExec eff rlmConfig replConfig (Finished output w) =
     (\<lambda>st. (Settled (Inr output), st\<lparr>world := w, listeners := 0\<rparr>))"
| "runExec eff rlmConfig replConfig (TimedOut w) =
     (\<lambda>st. (Settled (Inl ''Sandbox execution timed out''),
             st\<lparr>world := w, listeners := Suc (listeners st)\<rparr>))"
| "runExec eff rlmConfig replConfig (LlmRequest messages k) =
     (\<lambda>st. let (replies, st1) =
                 onLlmRequest eff rlmConfig replConfig messages (Suc (listeners st)) st
           in case llmRejection replies of
                Some e \<Rightarrow> (Unhandled e, st1)
              | None \<Rightarrow>
                  runExec eff rlmConfig replConfig (k (map llmResultOf replies) (world st1)) st1)"
| "runExec eff rlmConfig replConfig (GitLogRequest args k) =
     (\<lambda>st. case sanitizeGitLogArgs args of
             Inl e \<Rightarrow>
               runExec eff rlmConfig replConfig
                 (k (replicate (Suc (listeners st)) (Inl e)) (world st)) st
           | Inr sanitized \<Rightarrow>
               (let (replies, w) = onGitLogRequest eff sanitized (Suc (listeners st)) (world st)
                in case gitRejection replies of
                     Some e \<Rightarrow> (Unhandled e, st\<lparr>world := w\<rparr>)
                   | None \<Rightarrow>
                       runExec eff rlmConfig replConfig (k (map gitResultOf replies) w)
                         (st\<lparr>world := w\<rparr>)))"

definition executionErrorTurn :: "string \<Rightarrow> ChatMessage" where
  "executionErrorTurn msg =
     \<lparr>role = ''user'',
      content = ''Execution error: '' @ msg @ nl
                @ ''Try a simpler approach or call done() with your best answer.''\<rparr>"

definition outputErrorTurn :: "string \<Rightarrow> SandboxOutput \<Rightarrow> ChatMessage" where
  \<comment> \<open>the first argument is \<open>output.error\<close>, known to be a non-empty string\<close>
  "outputErrorTurn err output =
     \<lparr>role = ''user'',
      content = ''Execution error: '' @ err @ nl
                @ (if stdout output \<noteq> [] then ''Partial output:'' @ nl @ stdout output else [])
                @ ''Fix the error or call done() with your best answer.''\<rparr>"

definition outputTurn :: "SandboxOutput \<Rightarrow> ChatMessage" where
  "outputTurn output =
     \<lparr>role = ''user'',
      content = ''Output:'' @ nl
                @ (if stdout output \<noteq> [] then stdout output else ''(no output)'')
                @ nl @ nl @ ''Continue analysis or call done(answer) with your summary.''\<rparr>"

definition resultNow ::
  "'w Effects \<Rightarrow> rat \<Rightarrow> string \<Rightarrow> rat \<Rightarrow> 'w ReplState \<Rightarrow> 'w blockEnd" where
  \<comment> \<open>\<open>return Result.ok({answer, iterations, llmCalls: llmCallCount, elapsedMs, trace})\<close>\<close>
  "resultNow eff startTime ans its st =
     (let (t, w) = now eff (world st)
      in Return (Inr \<lparr>answer = ans, iterations = its, llmCalls = llmCallCount st,
                       elapsedMs = t - startTime, trace = traceLog st\<rparr>)
                (st\<lparr>world := w\<rparr>))"

function replLoop ::
  "'w Effects \<Rightarrow> RlmConfig \<Rightarrow> ReplConfig \<Rightarrow> rat \<Rightarrow> rat \<Rightarrow> 'w ReplState
     \<Rightarrow> 'w blockEnd + 'w ReplState" where
  \<comment> \<open>the for loop from the index i on; the fourth argument is \<open>startTime\<close>\<close>
  "replLoop eff rlmConfig replConfig startTime i st =
     (if \<not> i < maxIterations replConfig then Inr st
      else
        (let (exhausted, st0) = budgetExhausted eff replConfig startTime st
         in if exhausted \<or> \<not> llmBudgetLeft replConfig st0 then Inr st0
            else
              (let st1 = st0\<lparr>llmCallCount := llmCallCount st0 + 1\<rparr>;
                   (reply, w) = callLlm eff (world st1) (conversation st1) (maxOutputTokens replConfig);
                   st2 = st1\<lparr>world := w\<rparr>
               in case reply of
                    LlmThrow e \<Rightarrow> Inl (Raise e st2)
                  | LlmFail e \<Rightarrow> Inl (Return (Inl e) st2)
                  | LlmOk llmResponse \<Rightarrow>
                      (case extractCodeBlock llmResponse of
                         None \<Rightarrow> Inl (resultNow eff startTime llmResponse (i + 1) st2)
                       | Some code \<Rightarrow>
                           (let st3 = st2\<lparr>conversation := conversation st2
                                          @ [\<lparr>role = ''assistant'', content = llmResponse\<rparr>]\<rparr>;
                                subCallsBefore = llmCallCount st3;
                                (execEnded, st4) =
                                  runExec eff rlmConfig replConfig (worker eff (world st3) code) st3
                            in case execEnded of
                                 Unhandled e \<Rightarrow> Inl (Died e st4)
                               | Settled execResult \<Rightarrow>
                            (case execResult of
                                 Inl msg \<Rightarrow>
                                   replLoop eff rlmConfig replConfig startTime (i + 1)
                                     (st4\<lparr>conversation := conversation st4 @ [executionErrorTurn msg],
                                          traceLog := traceLog st4 @
                                            [\<lparr>iteration = i, codeGenerated = code,
                                              executionResult = ''ERROR: '' @ msg,
                                              subCallCount = llmCallCount st4 - subCallsBefore\<rparr>]\<rparr>)
                               | Inr output \<Rightarrow>
                                   (let st5 = st4\<lparr>traceLog := traceLog st4 @
                                            [\<lparr>iteration = i, codeGenerated = code,
                                              executionResult =
                                                (case truthy (error output) of
                                                   Some err \<Rightarrow> ''ERROR: '' @ err @ nl @ stdout output
                                                 | None \<Rightarrow> stdout output),
                                              subCallCount = llmCallCount st4 - subCallsBefore\<rparr>]\<rparr>
                                    in case (if doneFlag output then truthy (doneAnswer output) else None) of
                                         Some ans \<Rightarrow> Inl (resultNow eff startTime ans (i + 1) st5)
                                       | None \<Rightarrow>
                                           (case truthy (error output) of
                                              Some err \<Rightarrow>
                                                replLoop eff rlmConfig replConfig startTime (i + 1)
                                                  (st5\<lparr>conversation := conversation st5
                                                        @ [outputErrorTurn err output]\<rparr>)
                                            | None \<Rightarrow>
                                                replLoop eff rlmConfig replConfig startTime (i + 1)
                                                  (st5\<lparr>conversation := conversation st5
                                                        @ [outputTurn output]\<rparr>)))))))))"
  by pat_completeness auto
termination
proof -
  have step: "nat \<lceil>m - (i + 1)\<rceil> < nat \<lceil>m - i\<rceil>" if "i < m" for i m :: rat
  proof -
    have "\<lceil>m - (i + 1)\<rceil> = \<lceil>m - i\<rceil> - 1"
      by (simp add: algebra_simps flip: ceiling_diff_one)
    moreover from that have "0 < \<lceil>m - i\<rceil>" by simp
    ultimately show ?thesis by simp
  qed
  show ?thesis
    by (relation "measure (\<lambda>(eff, rlmConfig, replConfig, startTime, i, st).
                             nat \<lceil>maxIterations replConfig - i\<rceil>)")
       (simp_all only: wf_measure in_measure prod.case step not_not)
qed

declare replLoop.simps [simp del]

definition afterLoop ::
  "'w Effects \<Rightarrow> ReplConfig \<Rightarrow> rat \<Rightarrow> 'w ReplState \<Rightarrow> 'w blockEnd" where
  \<comment> \<open>the statements after the loop: the forced final text call when the budgets allow
      it, else, or when that call fails, the last output of the trace\<close>
  "afterLoop eff replConfig startTime st =
     (let completeFailure = (\<lambda>s.
            resultNow eff startTime
              (if length (traceLog s) > 0 then executionResult (last (traceLog s))
               else ''No output produced'')
              (of_nat (length (traceLog s))) s)
      in if \<not> llmBudgetLeft replConfig st then completeFailure st
         else
           (let (exhausted, st0) = budgetExhausted eff replConfig startTime st
            in if exhausted then completeFailure st0
               else
                 (let st1 = st0\<lparr>conversation := conversation st0 @
                              [\<lparr>role = ''user'',
                                content = ''Iteration budget exhausted. Provide your best answer as plain text (no code block).''\<rparr>],
                            llmCallCount := llmCallCount st0 + 1\<rparr>;
                      (reply, w) = callLlm eff (world st1) (conversation st1) (maxOutputTokens replConfig);
                      st2 = st1\<lparr>world := w\<rparr>
                  in case reply of
                       LlmThrow e \<Rightarrow> Raise e st2
                     | LlmFail e \<Rightarrow> completeFailure st2
                     | LlmOk v \<Rightarrow> resultNow eff startTime v (maxIterations replConfig + 1) st2)))"

definition initialConversation :: "string \<Rightarrow> string \<Rightarrow> ChatMessage list" where
  "initialConversation systemPrompt prompt =
     [\<lparr>role = ''system'', content = systemPrompt\<rparr>,
      \<lparr>role = ''user'',
       content = ''Task: '' @ prompt @ nl @ nl
                 @ ''Write JavaScript code to find relevant context from the git history index.''\<rparr>]"

definition runRepl ::
  "'w Effects \<Rightarrow> RlmConfig \<Rightarrow> ReplConfig \<Rightarrow> string \<Rightarrow> string \<Rightarrow> 'w
     \<Rightarrow> replOutcome \<times> 'w ReplState" where
  \<comment> \<open>The argument \<open>systemPrompt\<close> is the string buildReplSystemPrompt gives for the
      environment; the worker of the effects is the sandbox createSandbox gives for it.
      The body of the try block runs, then the finally block calls terminate; when the
      process has ended in the block, nothing runs.\<close>
  "runRepl eff rlmConfig replConfig systemPrompt prompt w0 =
     (let (startTime, w1) = now eff w0;
          st = \<lparr>llmCallCount = 0, traceLog = [],
                conversation = initialConversation systemPrompt prompt,
                world = w1, listeners = 0, terminateCalls = 0\<rparr>;
          body = (case replLoop eff rlmConfig replConfig startTime 0 st of
                    Inl ended \<Rightarrow> ended
                  | Inr s \<Rightarrow> afterLoop eff replConfig startTime s)
      in case body of
           Return r s \<Rightarrow> (Resolved r, s\<lparr>terminateCalls := terminateCalls s + 1\<rparr>)
         | Raise e s \<Rightarrow> (Rejected e, s\<lparr>terminateCalls := terminateCalls s + 1\<rparr>)
         | Died e s \<Rightarrow> (ProcessEnded e, s))"

subsection \<open>Invariant of a run\<close>





subsection \<open>The runs of the test suite (rlm-repl.test.ts)\<close>

definition resultOutput :: "string \<Rightarrow> string option \<Rightarrow> string option \<Rightarrow> SandboxOutput" where
  \<comment> \<open>the output the worker posts after an execution, from its variables stdoutBuffer, err
      and doneSignal: \<open>done: doneSignal !== null, doneAnswer: doneSignal\<close>\<close>
  "resultOutput stdoutBuffer err doneSignal =
     \<lparr>stdout = stdoutBuffer, error = err,
      doneFlag = (doneSignal \<noteq> None), doneAnswer = doneSignal\<rparr>"

definition fenced :: "string \<Rightarrow> string" where
  \<comment> \<open>a response that is one js block\<close>
  "fenced code = [CHR 0x60, CHR 0x60, CHR 0x60] @ ''js'' @ nl @ code @ nl
                 @ [CHR 0x60, CHR 0x60, CHR 0x60]"

definition sequenceLlm :: "string list \<Rightarrow> (string \<Rightarrow> SandboxOutput) \<Rightarrow> nat Effects" where
  \<comment> \<open>The effects of the tests of rlm-repl.test.ts: the LLM gives the canned responses
      in sequence and fails after the last, the world being the number of calls made;
      git log gives one line; the clock stands still; the sandbox runs each code to the
      output the second argument gives for it, with no sub-call.\<close>
  "sequenceLlm responses run =
     \<lparr>callLlm = (\<lambda>w msgs maxTok.
                  (if w < length responses then LlmOk (responses ! w)
                   else LlmFail ''No more responses'', Suc w)),
      execGitLog = (\<lambda>w args. (GitOk ''abc123 fix: auth bug'', w)),
      worker = (\<lambda>w code. Finished (run code) w),
      now = (\<lambda>w. (0, w))\<rparr>"

definition makeReplConfig :: ReplConfig where
  "makeReplConfig =
     \<lparr>maxIterations = 6, maxLlmCalls = 10, timeoutBudgetMs = 15000, maxOutputTokens = 512\<rparr>"

definition printsOut :: "string \<Rightarrow> SandboxOutput" where
  \<comment> \<open>code that logs one line and does not call done\<close>
  "printsOut code = resultOutput (''out'' @ nl) None None"

definition callsDone :: "string \<Rightarrow> string \<Rightarrow> SandboxOutput" where
  \<comment> \<open>code that is the one call \<open>done(answer)\<close> of a string\<close>
  "callsDone ans code = resultOutput [] None (Some ans)"

definition hangsThenAsks :: "nat \<Rightarrow> string \<Rightarrow> nat exec" where
  \<comment> \<open>a worker whose first code awaits a promise that never settles, so that \<open>execute\<close>
      times out, and whose later codes make one sub-call and end with done of the first
      response\<close>
  "hangsThenAsks w code =
     (if w \<le> 1 then TimedOut w
      else LlmRequest [\<lparr>role = ''user'', content = ''summarize''\<rparr>]
             (\<lambda>responses w1.
                Finished (resultOutput [] None
                            (Some (case hd responses of Inr v \<Rightarrow> v | Inl e \<Rightarrow> e))) w1))"

definition asksOnce :: "nat \<Rightarrow> string \<Rightarrow> nat exec" where
  \<comment> \<open>a worker whose code makes one sub-call and ends with done of the response\<close>
  "asksOnce w code =
     LlmRequest [\<lparr>role = ''user'', content = ''summarize''\<rparr>]
       (\<lambda>responses w1.
          Finished (resultOutput [] None
                      (Some (case hd responses of Inr v \<Rightarrow> v | Inl e \<Rightarrow> e))) w1)"

definition rejectsSecondCall :: "nat Effects" where
  \<comment> \<open>an LLM whose first call resolves with a js block and whose second call rejects\<close>
  "rejectsSecondCall =
     \<lparr>callLlm = (\<lambda>w msgs maxTok.
                  (if w = 0 then LlmOk (fenced ''callLlm([])'') else LlmThrow ''connection reset'',
                   Suc w)),
      execGitLog = (\<lambda>w args. (GitOk ''abc123 fix: auth bug'', w)),
      worker = asksOnce,
      now = (\<lambda>w. (0, w))\<rparr>"


section \<open>Properties of the string primitives\<close>

lemma startsWith_snoc:
  "startsWith s (p @ [c]) \<longleftrightarrow> startsWith s p \<and> charAt s (length p) = Some c"
  unfolding startsWith_def charAt_def
  by (auto simp: take_Suc_conv_app_nth)

lemma digitsOf_digits: "set (digitsOf n) \<subseteq> set ''0123456789''"
proof (induction n rule: digitsOf.induct)
  case (1 n)
  have nth_in: "\<And>k. k < 10 \<Longrightarrow> ''0123456789'' ! k \<in> set ''0123456789''"
    by (rule nth_mem) simp
  show ?case
  proof (cases "n < 10")
    case True
    then show ?thesis using nth_in[of n] by (subst digitsOf.simps) simp
  next
    case False
    have "n mod 10 < 10" by simp
    from nth_in[OF this] 1[OF False] False show ?thesis
      by (subst digitsOf.simps) simp
  qed
qed

lemma digits_not_dangerous: "set ''0123456789'' \<inter> set DANGEROUS_CHARS = {}"
  by (simp add: DANGEROUS_CHARS_def)

lemma String_not_dangerous:
  assumes "0 \<le> n" shows "\<not> hasDangerousChar (String n)"
proof -
  have "set (String n) \<subseteq> set ''0123456789''"
    using assms digitsOf_digits[of "nat n"] by (simp add: String_def)
  with digits_not_dangerous show ?thesis
    unfolding hasDangerousChar_def list_ex_iff by blast
qed

lemma parseInt10_dashdash: "startsWith s ''--'' \<Longrightarrow> parseInt10 s = None"
  by (cases s rule: list.exhaust; cases "tl s")
     (auto simp: parseInt10_def startsWith_def trimStart_def isWhiteSpace_def isDigit_def Let_def)

lemma parseInt10_dash: "startsWith s ''-'' \<Longrightarrow> parseInt10 s = Some n \<Longrightarrow> n \<le> 0"
  by (cases s)
     (auto simp: parseInt10_def startsWith_def trimStart_def isWhiteSpace_def Let_def split: if_splits)

section \<open>Scope matching\<close>

text \<open>
  C6. For every stored key \<open>k\<close> and pattern \<open>p\<close>, \<open>scopeMatches k p\<close> holds exactly when
  the lower-cased key equals the lower-cased pattern or starts with the lower-cased pattern
  followed by a slash; the pattern auth matches auth, auth/login and auth/login/flow, and
  does not match authn.
\<close>

theorem scopeMatches_iff:
  "(scopeMatches k p \<longleftrightarrow>
      toLowerCase k = toLowerCase p \<or> startsWith (toLowerCase k) (toLowerCase p @ ''/''))
   \<and> scopeMatches ''auth'' ''auth''
   \<and> scopeMatches ''auth/login'' ''auth''
   \<and> scopeMatches ''auth/login/flow'' ''auth''
   \<and> \<not> scopeMatches ''authn'' ''auth''"
proof -
  have general: "scopeMatches k p \<longleftrightarrow>
      toLowerCase k = toLowerCase p \<or> startsWith (toLowerCase k) (toLowerCase p @ ''/'')"
    unfolding scopeMatches_def Let_def startsWith_snoc by simp
  have e1: "scopeMatches ''auth'' ''auth''" by code_simp
  have e2: "scopeMatches ''auth/login'' ''auth''" by code_simp
  have e3: "scopeMatches ''auth/login/flow'' ''auth''" by code_simp
  have e4: "\<not> scopeMatches ''authn'' ''auth''" by code_simp
  from general e1 e2 e3 e4 show ?thesis by blast
qed

section \<open>Git log argument sanitization\<close>

lemma sanitizeLoop_append:
  "sanitizeLoop args (acc0 @ acc) = liftR acc0 (sanitizeLoop args acc)"
proof (induction args acc rule: sanitizeLoop.induct)
  case (1 sanitized)
  show ?case by (simp add: liftR_def)
next
  case (2 arg rest sanitized)
  show ?case
  proof (cases rest)
    case Nil
    with 2 show ?thesis by (simp add: liftR_def)
  next
    case (Cons nx rest')
    have nn: "\<not> startsWith ''-n'' ''--''" by (simp add: startsWith_def)
    from Cons 2 show ?thesis
      unfolding sanitizeLoop.simps(2)[of arg rest] 
      by (auto simp add: liftR_def nn simp del: sanitizeLoop.simps split: option.splits)
  qed
qed

lemma sanitizeLoop_Cons_cases:
  assumes "sanitizeLoop (arg # rest) [] = Inr out"
  shows "\<not> hasDangerousChar arg \<and>
     ((arg \<noteq> ''-n'' \<and> (startsWith arg ''--'' \<longrightarrow> flagOf arg \<in> set ALLOWED_GIT_LOG_FLAGS)
         \<and> (startsWith arg ''--'' \<or> \<not> (startsWith arg ''-'' \<and> length arg = 2))
         \<and> (\<exists>out'. sanitizeLoop rest [] = Inr out' \<and> out = arg # out'))
      \<or> (arg = ''-n'' \<and> rest = [] \<and> out = [''-n''])
      \<or> (arg = ''-n'' \<and> (\<exists>nx rest' n out'. rest = nx # rest' \<and> parseInt10 nx = Some n \<and> 1 \<le> n
             \<and> sanitizeLoop rest' [] = Inr out' \<and> out = ''-n'' # String (min n 50) # out')))"
proof -
  have a: "sanitizeLoop xs ys = Inr out \<Longrightarrow> \<exists>out'. sanitizeLoop xs [] = Inr out' \<and> out = ys @ out'" for xs ys
    using sanitizeLoop_append[of xs ys "[]"] by (auto simp: liftR_def split: sum.splits)
  have nd: "\<not> hasDangerousChar arg"
    using assms by (simp split: if_splits)
  show ?thesis
  proof (cases "arg = ''-n''")
    case True
    have nn: "\<not> startsWith ''-n'' ''--''" by (simp add: startsWith_def)
    show ?thesis
    proof (cases rest)
      case Nil
      with True assms nn nd show ?thesis by simp
    next
      case (Cons nx rest')
      from assms have "sanitizeLoop (''-n'' # nx # rest') [] = Inr out"
        using True Cons by simp
      then obtain n where n: "parseInt10 nx = Some n" "1 \<le> n"
         "sanitizeLoop rest' [''-n'', String (min n 50)] = Inr out"
        using nn nd True by (auto simp del: sanitizeLoop.simps simp add: sanitizeLoop.simps(2)[of "''-n''" "nx # rest'"] split: option.splits if_splits)
      from a[OF n(3)] n(1,2) True Cons nd show ?thesis by auto
    qed
  next
    case False
    from assms have "sanitizeLoop rest [arg] = Inr out" and
        "startsWith arg ''--'' \<longrightarrow> flagOf arg \<in> set ALLOWED_GIT_LOG_FLAGS" and
        "startsWith arg ''--'' \<or> \<not> (startsWith arg ''-'' \<and> length arg = 2)"
      using False nd by (auto simp del: sanitizeLoop.simps simp add: sanitizeLoop.simps(2)[of arg rest] split: if_splits)
    with a[of rest "[arg]"] False nd show ?thesis by auto
  qed
qed



lemma sanitize_induct [consumes 1, case_names Nil Arg LastN NValue]:
  assumes ok: "sanitizeLoop args [] = Inr out"
    and nil: "P [] []"
    and arg: "\<And>arg rest out'. \<not> hasDangerousChar arg \<Longrightarrow> arg \<noteq> ''-n'' \<Longrightarrow>
        (startsWith arg ''--'' \<longrightarrow> flagOf arg \<in> set ALLOWED_GIT_LOG_FLAGS) \<Longrightarrow>
        (startsWith arg ''--'' \<or> \<not> (startsWith arg ''-'' \<and> length arg = 2)) \<Longrightarrow>
        sanitizeLoop rest [] = Inr out' \<Longrightarrow> P rest out' \<Longrightarrow> P (arg # rest) (arg # out')"
    and lastn: "P [''-n''] [''-n'']"
    and nvalue: "\<And>nx rest' n out'. parseInt10 nx = Some n \<Longrightarrow> 1 \<le> n \<Longrightarrow>
        sanitizeLoop rest' [] = Inr out' \<Longrightarrow> P rest' out' \<Longrightarrow>
        P (''-n'' # nx # rest') (''-n'' # String (min n 50) # out')"
  shows "P args out"
  using ok
proof (induction "length args" arbitrary: args out rule: less_induct)
  case less
  show ?case
  proof (cases args)
    case Nil
    with less.prems nil show ?thesis by simp
  next
    case (Cons a rest)
    from sanitizeLoop_Cons_cases[OF less.prems[unfolded Cons]]
    consider (A) out' where "\<not> hasDangerousChar a" "a \<noteq> ''-n''"
        "startsWith a ''--'' \<longrightarrow> flagOf a \<in> set ALLOWED_GIT_LOG_FLAGS"
        "startsWith a ''--'' \<or> \<not> (startsWith a ''-'' \<and> length a = 2)"
        "sanitizeLoop rest [] = Inr out'" "out = a # out'"
      | (B) "a = ''-n''" "rest = []" "out = [''-n'']"
      | (C) nx rest' n out' where "a = ''-n''" "rest = nx # rest'" "parseInt10 nx = Some n" "1 \<le> n"
         "sanitizeLoop rest' [] = Inr out'" "out = ''-n'' # String (min n 50) # out'"
      by blast
    then show ?thesis
    proof cases
      case A
      have "P rest out'" using less.hyps[of rest out'] A(5) Cons by simp
      with A arg[of a rest out'] Cons show ?thesis by simp
    next
      case B
      with lastn Cons show ?thesis by simp
    next
      case C
      have "P rest' out'" using less.hyps[of rest' out'] C Cons by simp
      with C nvalue[of nx n rest' out'] Cons show ?thesis by simp
    qed
  qed
qed

lemma out_clean:
  "sanitizeLoop args [] = Inr out \<Longrightarrow> \<forall>a \<in> set out. \<not> hasDangerousChar a"
proof (induction rule: sanitize_induct)
  case (NValue nx rest' n out')
  have "\<not> hasDangerousChar ''-n''" by (simp add: hasDangerousChar_def DANGEROUS_CHARS_def)
  moreover have "\<not> hasDangerousChar (String (min n 50))"
    using NValue(2) by (intro String_not_dangerous) simp
  ultimately show ?case using NValue by simp
qed (simp_all add: hasDangerousChar_def DANGEROUS_CHARS_def)

lemma in_danger_after_n:
  "sanitizeLoop args [] = Inr out \<Longrightarrow>
     \<forall>pre a post. args = pre @ a # post \<and> hasDangerousChar a \<longrightarrow> (\<exists>pre'. pre = pre' @ [''-n''])"
proof (induction rule: sanitize_induct)
  case Nil show ?case by simp
next
  case (Arg arg rest out')
  show ?case
  proof (intro allI impI)
    fix pre a post assume h: "arg # rest = pre @ a # post \<and> hasDangerousChar a"
    show "\<exists>pre'. pre = pre' @ [''-n'']"
    proof (cases pre)
      case Nil with h Arg(1) show ?thesis by simp
    next
      case (Cons x pre2)
      with h have "rest = pre2 @ a # post" by simp
      with Arg.IH h obtain p where "pre2 = p @ [''-n'']" by blast
      with Cons show ?thesis by simp
    qed
  qed
next
  case LastN
  have "\<not> hasDangerousChar ''-n''" by (simp add: hasDangerousChar_def DANGEROUS_CHARS_def)
  then show ?case by (auto simp: Cons_eq_append_conv)
next
  case (NValue nx rest' n out')
  have nd: "\<not> hasDangerousChar ''-n''" by (simp add: hasDangerousChar_def DANGEROUS_CHARS_def)
  show ?case
  proof (intro allI impI)
    fix pre a post assume h: "''-n'' # nx # rest' = pre @ a # post \<and> hasDangerousChar a"
    show "\<exists>pre'. pre = pre' @ [''-n'']"
    proof (cases pre)
      case Nil with h nd show ?thesis by simp
    next
      case (Cons x pre2)
      note c1 = this
      show ?thesis
      proof (cases pre2)
        case Nil with c1 h show ?thesis by simp
      next
        case (Cons y pre3)
        with c1 h have "rest' = pre3 @ a # post" by simp
        with NValue.IH h obtain p where "pre3 = p @ [''-n'']" by blast
        with Cons c1 show ?thesis by simp
      qed
    qed
  qed
qed

lemma flags_allowed:
  "sanitizeLoop args [] = Inr out \<Longrightarrow>
     \<forall>a \<in> set args. startsWith a ''--'' \<longrightarrow> flagOf a \<in> set ALLOWED_GIT_LOG_FLAGS"
proof (induction rule: sanitize_induct)
  case (NValue nx rest' n out')
  have "\<not> startsWith nx ''--''" using parseInt10_dashdash[of nx] NValue(1) by auto
  moreover have "\<not> startsWith ''-n'' ''--''" by (simp add: startsWith_def)
  ultimately show ?case using NValue by simp
qed (simp_all add: startsWith_def)

lemma single_letter_rejected:
  "sanitizeLoop args [] = Inr out \<Longrightarrow>
     \<forall>a \<in> set args. startsWith a ''-'' \<and> length a = 2 \<longrightarrow> a = ''-n''"
proof (induction rule: sanitize_induct)
  case (Arg arg rest out')
  have "startsWith arg ''--'' \<Longrightarrow> length arg = 2 \<Longrightarrow> arg = ''--''"
    by (simp add: startsWith_def)
  moreover have "flagOf ''--'' \<notin> set ALLOWED_GIT_LOG_FLAGS"
    by (simp add: flagOf_def ALLOWED_GIT_LOG_FLAGS_def startsWith_def)
  ultimately show ?case using Arg by auto
next
  case (NValue nx rest' n out')
  have "\<not> startsWith nx ''-''" using parseInt10_dash[of nx n] NValue(1,2) by auto
  then show ?case using NValue by simp
qed simp_all

lemma n_capped:
  "sanitizeLoop args [] = Inr out \<Longrightarrow>
     \<forall>i. Suc i < length out \<and> out ! i = ''-n'' \<longrightarrow>
        (\<exists>N. 1 \<le> N \<and> N \<le> 50 \<and> out ! Suc i = String N)"
proof (induction rule: sanitize_induct)
  case (Arg arg rest out')
  show ?case
  proof (intro allI impI)
    fix i assume h: "Suc i < length (arg # out') \<and> (arg # out') ! i = ''-n''"
    show "\<exists>N. 1 \<le> N \<and> N \<le> 50 \<and> (arg # out') ! Suc i = String N"
    proof (cases i)
      case 0 with h Arg(2) show ?thesis by simp
    next
      case (Suc j) with h Arg.IH show ?thesis by simp
    qed
  qed
next
  case (NValue nx rest' n out')
  have sn: "String (min n 50) \<noteq> ''-n''"
  proof
    assume e: "String (min n 50) = ''-n''"
    have "set (String (min n 50)) \<subseteq> set ''0123456789''"
      using NValue(2) digitsOf_digits[of "nat (min n 50)"] by (simp add: String_def)
    with e show False by simp
  qed
  show ?case
  proof (intro allI impI)
    fix i assume h: "Suc i < length (''-n'' # String (min n 50) # out') \<and> (''-n'' # String (min n 50) # out') ! i = ''-n''"
    show "\<exists>N. 1 \<le> N \<and> N \<le> 50 \<and> (''-n'' # String (min n 50) # out') ! Suc i = String N"
    proof (cases i)
      case 0 
      have "1 \<le> min n 50 \<and> min n 50 \<le> 50" using NValue(2) by simp
      with 0 show ?thesis by (intro exI[of _ "min n 50"]) simp
    next
      case (Suc j)
      note s1 = this
      show ?thesis
      proof (cases j)
        case 0 with s1 h sn show ?thesis by simp
      next
        case (Suc k) with s1 h NValue.IH show ?thesis by simp
      qed
    qed
  qed
qed simp_all



lemma long_dash_step:
  assumes "isLongSingleDash a" and "\<not> hasDangerousChar a"
  shows "sanitizeLoop (a # rest) acc = sanitizeLoop rest (acc @ [a])"
proof -
  from assms(1) have "a \<noteq> ''-n''" "\<not> startsWith a ''--''" "length a \<noteq> 2"
    by (auto simp: isLongSingleDash_def)
  with assms(2) show ?thesis by simp
qed

lemma long_dash_kept:
  "sanitizeLoop args [] = Inr out \<Longrightarrow> \<forall>a \<in> set args. isLongSingleDash a \<longrightarrow> a \<in> set out"
proof (induction rule: sanitize_induct)
  case (NValue nx rest' n out')
  have "\<not> startsWith nx ''-''" using parseInt10_dash[of nx n] NValue(1,2) by auto
  then have "\<not> isLongSingleDash nx" by (simp add: isLongSingleDash_def)
  then show ?case using NValue by auto
qed auto

text \<open>
  C1, as amended. Whenever \<open>sanitizeGitLogArgs args\<close> succeeds with the list \<open>out\<close>:
  no argument of the returned list contains one of the characters | ; & $ backtick
  backslash, and an argument of \<open>args\<close> that contains one stands right after a \<open>-n\<close>
  (it is the value token, which is parsed and replaced, never copied); every argument of
  \<open>args\<close> that begins with two dashes has its flag portion in the allowed set; the only
  two-character argument of \<open>args\<close> that begins with a dash is \<open>-n\<close>; and in \<open>out\<close>
  an element right after a \<open>-n\<close> is the decimal form of a number N with 1 \<le> N \<le> 50.
\<close>

theorem sanitizeGitLogArgs_ok:
  assumes "sanitizeGitLogArgs args = Inr out"
  shows "(\<forall>a \<in> set out. \<not> hasDangerousChar a)
     \<and> (\<forall>pre a post. args = pre @ a # post \<and> hasDangerousChar a \<longrightarrow> (\<exists>pre'. pre = pre' @ [''-n'']))
     \<and> (\<forall>a \<in> set args. startsWith a ''--'' \<longrightarrow> flagOf a \<in> set ALLOWED_GIT_LOG_FLAGS)
     \<and> (\<forall>a \<in> set args. startsWith a ''-'' \<and> length a = 2 \<longrightarrow> a = ''-n'')
     \<and> (\<forall>i. Suc i < length out \<and> out ! i = ''-n'' \<longrightarrow>
            (\<exists>N. 1 \<le> N \<and> N \<le> 50 \<and> out ! Suc i = String N))"
proof -
  from assms have ok: "sanitizeLoop args [] = Inr out" by (simp add: sanitizeGitLogArgs_def)
  from out_clean[OF ok] in_danger_after_n[OF ok] flags_allowed[OF ok]
       single_letter_rejected[OF ok] n_capped[OF ok]
  show ?thesis by blast
qed

theorem sanitizeGitLogArgs_ok_witness:
  "sanitizeGitLogArgs [''--format=%H %s'', ''-n'', ''100'', ''--no-merges'', ''src'']
     = Inr [''--format=%H %s'', ''-n'', ''50'', ''--no-merges'', ''src'']
   \<and> list_all (\<lambda>a. \<not> hasDangerousChar a) [''--format=%H %s'', ''-n'', ''50'', ''--no-merges'', ''src'']
   \<and> flagOf ''--format=%H %s'' \<in> set ALLOWED_GIT_LOG_FLAGS
   \<and> (\<exists>N. 1 \<le> N \<and> N \<le> 50 \<and> ''50'' = String N)"
proof -
  have h: "sanitizeGitLogArgs [''--format=%H %s'', ''-n'', ''100'', ''--no-merges'', ''src'']
     = Inr [''--format=%H %s'', ''-n'', ''50'', ''--no-merges'', ''src'']"
    by code_simp
  from sanitizeGitLogArgs_ok[OF h]
  have cap: "\<forall>i. Suc i < length [''--format=%H %s'', ''-n'', ''50'', ''--no-merges'', ''src'']
        \<and> [''--format=%H %s'', ''-n'', ''50'', ''--no-merges'', ''src''] ! i = ''-n'' \<longrightarrow>
        (\<exists>N. 1 \<le> N \<and> N \<le> 50 \<and>
          [''--format=%H %s'', ''-n'', ''50'', ''--no-merges'', ''src''] ! Suc i = String N)"
    by blast
  from cap[rule_format, of 1]
  have "\<exists>N. 1 \<le> N \<and> N \<le> 50 \<and> ''50'' = String N" by simp
  moreover have "startsWith ''--format=%H %s'' ''--''" by code_simp
  ultimately show ?thesis using h sanitizeGitLogArgs_ok[OF h]
    unfolding list_all_iff by (metis list.set_intros(1))
qed

text \<open>
  C1 as stated fails: the value token after \<open>-n\<close> is never tested for the dangerous
  characters, so a successful call can have an argument that contains one.
\<close>

theorem sanitizeGitLogArgs_dangerous_input_counterexample:
  "sanitizeGitLogArgs [''-n'', ''5;x''] = Inr [''-n'', ''5''] \<and> hasDangerousChar ''5;x''"
  by code_simp

text \<open>
  C2. An argument that begins with a single dash and is longer than two code units takes
  the positional branch: without a dangerous character the loop pushes it unchanged and
  goes on, and whenever the call succeeds every such argument of the input is in the
  sanitized output. So \<open>-n500\<close> and \<open>-x5\<close> pass, while the two-token form is capped and
  a two-character flag outside the allowed set is rejected.
\<close>

theorem long_single_dash_is_positional:
  "(isLongSingleDash a \<and> \<not> hasDangerousChar a \<longrightarrow>
      sanitizeLoop (a # rest) acc = sanitizeLoop rest (acc @ [a]))
   \<and> (sanitizeGitLogArgs args = Inr out \<and> b \<in> set args \<and> isLongSingleDash b \<longrightarrow> b \<in> set out)
   \<and> sanitizeGitLogArgs [''-n500''] = Inr [''-n500'']
   \<and> sanitizeGitLogArgs [''-x5''] = Inr [''-x5'']
   \<and> sanitizeGitLogArgs [''-n'', ''500''] = Inr [''-n'', ''50'']
   \<and> sanitizeGitLogArgs [''-x''] = Inl ''Disallowed git log flag: -x''"
proof -
  have p1: "isLongSingleDash a \<and> \<not> hasDangerousChar a \<longrightarrow>
      sanitizeLoop (a # rest) acc = sanitizeLoop rest (acc @ [a])"
    using long_dash_step by blast
  have p2: "sanitizeGitLogArgs args = Inr out \<and> b \<in> set args \<and> isLongSingleDash b \<longrightarrow> b \<in> set out"
    using long_dash_kept[of args out] by (auto simp: sanitizeGitLogArgs_def)
  have e1: "sanitizeGitLogArgs [''-n500''] = Inr [''-n500'']" by code_simp
  have e2: "sanitizeGitLogArgs [''-x5''] = Inr [''-x5'']" by code_simp
  have e3: "sanitizeGitLogArgs [''-n'', ''500''] = Inr [''-n'', ''50'']" by code_simp
  have e4: "sanitizeGitLogArgs [''-x''] = Inl ''Disallowed git log flag: -x''" by code_simp
  from p1 p2 e1 e2 e3 e4 show ?thesis by blast
qed

theorem long_single_dash_is_positional_witness:
  "isLongSingleDash ''-n500'' \<and> \<not> hasDangerousChar ''-n500''
   \<and> sanitizeLoop [''-n500'', ''src''] [''--no-merges''] = sanitizeLoop [''src''] [''--no-merges'', ''-n500'']
   \<and> sanitizeGitLogArgs [''--no-merges'', ''-n500''] = Inr [''--no-merges'', ''-n500'']
   \<and> ''-n500'' \<in> set [''--no-merges'', ''-n500'']"
proof -
  have a: "isLongSingleDash ''-n500''" by code_simp
  have b: "\<not> hasDangerousChar ''-n500''" by code_simp
  have c: "sanitizeGitLogArgs [''--no-merges'', ''-n500''] = Inr [''--no-merges'', ''-n500'']"
    by code_simp
  from a b c
    long_single_dash_is_positional[of "''-n500''" "[''src'']" "[''--no-merges'']"
      "[''--no-merges'', ''-n500'']" "[''--no-merges'', ''-n500'']" "''-n500''"]
  show ?thesis by simp
qed


section \<open>Trailer index query\<close>


lemma set_foldl_setAdd: "set (foldl setAdd acc hs) = set acc \<union> set hs"
  by (induction hs arbitrary: acc) (auto simp: setAdd_def)

lemma distinct_foldl_setAdd: "distinct acc \<Longrightarrow> distinct (foldl setAdd acc hs)"
  by (induction hs arbitrary: acc) (auto simp: setAdd_def)

lemma set_newSet: "set (newSet hs) = set hs"
  by (simp add: newSet_def set_foldl_setAdd)

lemma distinct_newSet: "distinct (newSet hs)"
  by (simp add: newSet_def distinct_foldl_setAdd)

lemma newSet_snoc: "newSet (hs @ [h]) = setAdd (newSet hs) h"
  by (simp add: newSet_def)

lemma newSet_distinct_id: "distinct hs \<Longrightarrow> newSet hs = hs"
proof (induction hs rule: rev_induct)
  case Nil show ?case by (simp add: newSet_def)
next
  case (snoc x xs)
  then show ?case by (simp add: newSet_snoc setAdd_def set_newSet)
qed

lemma newSet_idem: "newSet (newSet hs) = newSet hs"
  by (rule newSet_distinct_id[OF distinct_newSet])

lemma intersect_None: "intersect hs None = Some (newSet hs)"
  by (simp add: intersect_def)

lemma intersect_Some: "intersect hs (Some cs) = Some (filter (\<lambda>h. h \<in> set hs) cs)"
  by (simp add: intersect_def set_newSet)

lemma intentHashes_own:
  "list_all (\<lambda>i. getProperty (byIntent idx) i \<noteq> Inherited) is \<Longrightarrow>
   intentHashes idx is ih = Inr (foldl setAdd ih (concat (map (lookupHashes (byIntent idx)) is)))"
proof (induction "is" arbitrary: ih)
  case Nil show ?case by simp
next
  case (Cons i rest)
  then show ?case
    by (cases "map_of (byIntent idx) i")
       (auto simp: getProperty_def lookupHashes_def split: if_splits)
qed

lemma decidedAgainstHashes_own:
  "list_all (\<lambda>h. getProperty (commits idx) h \<noteq> Inherited) hs \<Longrightarrow>
   decidedAgainstHashes idx kw hs m = Inr (m @ filter (commitMatches idx kw) hs)"
proof (induction hs arbitrary: m)
  case Nil show ?case by simp
next
  case (Cons h rest)
  then show ?case
    by (cases "map_of (commits idx) h")
       (auto simp: getProperty_def commitMatches_def split: if_splits)
qed

lemma filter_commitMatches:
  "filter (commitMatches idx kw) (withDecidedAgainst idx)
     = filter (matchesDecidedAgainst idx kw) (withDecidedAgainst idx)"
  by (rule filter_cong) (auto simp: commitMatches_def matchesDecidedAgainst_def)

lemma mem_intents:
  "h \<in> set (concat (map (lookupHashes (byIntent idx)) is)) \<longleftrightarrow> matchesIntents idx is h"
  by (auto simp: matchesIntents_def list_ex_iff)

lemma mem_scope: "h \<in> set (scopeHashes idx sc) \<longleftrightarrow> matchesScope idx sc h"
  by (auto simp: scopeHashes_def matchesScope_def list_ex_iff)

lemma mem_decided:
  "h \<in> set (filter (matchesDecidedAgainst idx kw) (withDecidedAgainst idx))
     \<longleftrightarrow> matchesDecidedAgainst idx kw h"
  by (auto simp: matchesDecidedAgainst_def)

lemma sessionStep_own:
  "truthy (p_session p) = Some s \<Longrightarrow> getProperty (bySession idx) s \<noteq> Inherited \<Longrightarrow>
   sessionStep idx p c = Inr (intersect (lookupHashes (bySession idx) s) c)"
  by (cases "map_of (bySession idx) s")
     (auto simp: sessionStep_def getProperty_def lookupHashes_def split: if_splits)



lemma intentsStep_own:
  assumes "lookupsOwn idx p"
  shows "intentsStep idx p =
     Inr (case truthyIntents (p_intents p) of
            None \<Rightarrow> None
          | Some is \<Rightarrow> Some (newSet (concat (map (lookupHashes (byIntent idx)) is))))"
proof (cases "truthyIntents (p_intents p)")
  case None
  then show ?thesis by (simp add: intentsStep_def)
next
  case (Some "is")
  with assms have "list_all (\<lambda>i. getProperty (byIntent idx) i \<noteq> Inherited) is"
    by (simp add: lookupsOwn_def)
  from intentHashes_own[OF this, of "[]"] Some show ?thesis
    by (simp add: intentsStep_def intersect_None newSet_def[symmetric] newSet_idem)
qed

lemma sessionStep_own':
  assumes "lookupsOwn idx p"
  shows "sessionStep idx p c =
     Inr (case truthy (p_session p) of
            None \<Rightarrow> c
          | Some s \<Rightarrow> intersect (lookupHashes (bySession idx) s) c)"
proof (cases "truthy (p_session p)")
  case None
  then show ?thesis by (simp add: sessionStep_def)
next
  case (Some s)
  with assms have "getProperty (bySession idx) s \<noteq> Inherited"
    by (simp add: lookupsOwn_def)
  from sessionStep_own[OF Some this] Some show ?thesis by simp
qed

lemma decidedAgainstStep_own:
  assumes "lookupsOwn idx p"
  shows "decidedAgainstStep idx p c =
     Inr (case truthy (p_decidedAgainst p) of
            None \<Rightarrow> c
          | Some kw \<Rightarrow>
              intersect (filter (matchesDecidedAgainst idx kw) (withDecidedAgainst idx)) c)"
proof (cases "truthy (p_decidedAgainst p)")
  case None
  then show ?thesis by (simp add: decidedAgainstStep_def)
next
  case (Some kw)
  with assms have "list_all (\<lambda>h. getProperty (commits idx) h \<noteq> Inherited) (withDecidedAgainst idx)"
    by (simp add: lookupsOwn_def)
  from decidedAgainstHashes_own[OF this, of kw "[]"] Some show ?thesis
    by (simp add: decidedAgainstStep_def filter_commitMatches)
qed

lemma filter_mem_newSet: "filter (\<lambda>h. h \<in> set L \<and> P h) (newSet L) = filter P (newSet L)"
  by (rule filter_cong) (auto simp: set_newSet)

lemma filter_mem_newSet': "filter (\<lambda>h. h \<in> set L) (newSet L) = newSet L"
  by (simp add: filter_id_conv set_newSet)




lemma intersect_None': "intersect hs None = Some (filter (\<lambda>h. h \<in> set hs) (newSet hs))"
  by (simp add: intersect_None filter_mem_newSet')

lemma filter_congI: "(\<And>x. x \<in> set xs \<Longrightarrow> P x = Q x) \<Longrightarrow> filter P xs = filter Q xs"
  by (rule filter_cong) auto

lemma satisfiesAll_cases:
  "truthyIntents (p_intents p) = a \<Longrightarrow> truthy (p_session p) = b \<Longrightarrow>
   truthy (p_decidedAgainst p) = c \<Longrightarrow> truthy (p_scope p) = d \<Longrightarrow>
   satisfiesAll idx p h =
     ((case a of None \<Rightarrow> True | Some is \<Rightarrow> h \<in> set (concat (map (lookupHashes (byIntent idx)) is))) \<and>
      (case b of None \<Rightarrow> True | Some s \<Rightarrow> h \<in> set (lookupHashes (bySession idx) s)) \<and>
      (case c of None \<Rightarrow> True | Some kw \<Rightarrow>
          h \<in> set (filter (matchesDecidedAgainst idx kw) (withDecidedAgainst idx))) \<and>
      (case d of None \<Rightarrow> True | Some sc \<Rightarrow> h \<in> set (scopeHashes idx sc)))"
  unfolding satisfiesAll_def
  by (simp only: mem_intents mem_scope mem_decided matchesSession_def[symmetric]
        split: option.splits)

lemma cands_computes:
  assumes "lookupsOwn idx p"
  shows "scopeStep idx p
     (case truthy (p_decidedAgainst p) of
        None \<Rightarrow> (case truthy (p_session p) of
                   None \<Rightarrow> (case truthyIntents (p_intents p) of
                               None \<Rightarrow> None
                             | Some is \<Rightarrow> Some (newSet (concat (map (lookupHashes (byIntent idx)) is))))
                 | Some s \<Rightarrow> intersect (lookupHashes (bySession idx) s)
                      (case truthyIntents (p_intents p) of
                               None \<Rightarrow> None
                             | Some is \<Rightarrow> Some (newSet (concat (map (lookupHashes (byIntent idx)) is)))))
      | Some kw \<Rightarrow> intersect (filter (matchesDecidedAgainst idx kw) (withDecidedAgainst idx))
                 (case truthy (p_session p) of
                   None \<Rightarrow> (case truthyIntents (p_intents p) of
                               None \<Rightarrow> None
                             | Some is \<Rightarrow> Some (newSet (concat (map (lookupHashes (byIntent idx)) is))))
                 | Some s \<Rightarrow> intersect (lookupHashes (bySession idx) s)
                      (case truthyIntents (p_intents p) of
                               None \<Rightarrow> None
                             | Some is \<Rightarrow> Some (newSet (concat (map (lookupHashes (byIntent idx)) is))))))
   = (if anyFilter p then Some (filter (satisfiesAll idx p) (newSet (insertionOrder idx p))) else None)"
proof -
  obtain a b c d where abcd: "truthyIntents (p_intents p) = a" "truthy (p_session p) = b"
    "truthy (p_decidedAgainst p) = c" "truthy (p_scope p) = d" by blast
  note sat = satisfiesAll_cases[OF abcd]
  have nS: "Some (newSet L) = Some (filter (\<lambda>h. h \<in> set L) (newSet L))" for L
    by (simp add: filter_mem_newSet')
  show ?thesis
    unfolding scopeStep_def anyFilter_def insertionOrder_def abcd
    apply (cases a; cases b; cases c; cases d)
    apply (simp_all only: option.case intersect_None' intersect_Some option.inject filter_filter
         option.distinct simp_thms if_True if_False nS[of "concat _"])
    apply (auto intro!: filter_congI simp: sat set_newSet simp del: set_concat set_filter)
    done
qed



lemma query_computes:
  assumes "lookupsOwn idx p"
  shows "queryIndexForHashes idx p =
     Inr (if anyFilter p
          then sliceTo (filter (satisfiesAll idx p) (newSet (insertionOrder idx p)))
                 (limitOrDefault (p_limit p))
          else [])"
  unfolding queryIndexForHashes_def intentsStep_own[OF assms] sessionStep_own'[OF assms]
    decidedAgainstStep_own[OF assms] sum.case cands_computes[OF assms]
  by simp

lemma satisfiesAll_in_order:
  assumes "anyFilter p" and "satisfiesAll idx p h"
  shows "h \<in> set (insertionOrder idx p)"
proof -
  obtain a b c d where abcd: "truthyIntents (p_intents p) = a" "truthy (p_session p) = b"
    "truthy (p_decidedAgainst p) = c" "truthy (p_scope p) = d" by blast
  from assms show ?thesis
    unfolding satisfiesAll_cases[OF abcd] anyFilter_def insertionOrder_def abcd
    by (cases a; cases b; cases c; cases d) (simp_all del: set_concat set_filter)
qed

lemma full_set:
  assumes "anyFilter p"
  shows "set (filter (satisfiesAll idx p) (newSet (insertionOrder idx p))) = {h. satisfiesAll idx p h}"
  using satisfiesAll_in_order[OF assms] by (auto simp: set_newSet)

lemma sliceTo_pos: "0 \<le> n \<Longrightarrow> sliceTo xs n = take (nat n) xs"
  by (simp add: sliceTo_def)


text \<open>
  C3, as amended. A filter is present when its parameter is given and not empty (a non-empty
  intents array, a non-empty string). Provided no name the query reads from an object of
  the index is found on Object.prototype only: with no filter present the query returns
  the empty list; otherwise it returns the hashes that satisfy every present filter
  (intents: member of byIntent[i] for some given i; session: member of bySession[session];
  decidedAgainst: a hash of withDecidedAgainst whose commit has a decidedAgainst entry that
  matches the keyword at a word boundary; scope: member of byScope[k] for some stored key k
  with scopeMatches(k, scope)), each once, in the order the first present filter inserts
  them, cut by \<open>slice(0, limit || 20)\<close>: to the first 20 when limit is absent or 0, to the
  first limit when limit is positive.
\<close>

theorem queryIndexForHashes_filters:
  assumes "lookupsOwn idx p"
  shows "queryIndexForHashes idx p =
           Inr (if anyFilter p
                then sliceTo (orderedMatches idx p) (limitOrDefault (p_limit p))
                else [])
     \<and> distinct (orderedMatches idx p)
     \<and> (anyFilter p \<longrightarrow> set (orderedMatches idx p) = {h. satisfiesAll idx p h})
     \<and> (p_limit p = None \<or> p_limit p = Some 0 \<longrightarrow> limitOrDefault (p_limit p) = 20)
     \<and> (\<forall>n. p_limit p = Some n \<and> 0 < n \<longrightarrow>
            sliceTo (orderedMatches idx p) (limitOrDefault (p_limit p))
              = take (nat n) (orderedMatches idx p))"
proof -
  have a: "queryIndexForHashes idx p =
           Inr (if anyFilter p
                then sliceTo (orderedMatches idx p) (limitOrDefault (p_limit p))
                else [])"
    using query_computes[OF assms] by (simp add: orderedMatches_def)
  have b: "distinct (orderedMatches idx p)"
    by (simp add: orderedMatches_def distinct_newSet)
  have c: "anyFilter p \<longrightarrow> set (orderedMatches idx p) = {h. satisfiesAll idx p h}"
    using full_set[of p idx] by (simp add: orderedMatches_def)
  have d: "p_limit p = None \<or> p_limit p = Some 0 \<longrightarrow> limitOrDefault (p_limit p) = 20"
    by (auto simp: limitOrDefault_def)
  have e: "\<forall>n. p_limit p = Some n \<and> 0 < n \<longrightarrow>
            sliceTo (orderedMatches idx p) (limitOrDefault (p_limit p))
              = take (nat n) (orderedMatches idx p)"
    by (auto simp: limitOrDefault_def sliceTo_def)
  from a b c d e show ?thesis by blast
qed

theorem queryIndexForHashes_filters_witness:
  "lookupsOwn exampleIndex (noParams\<lparr>p_intents := Some [''fix-defect''], p_scope := Some ''cache''\<rparr>)
   \<and> queryIndexForHashes exampleIndex
         (noParams\<lparr>p_intents := Some [''fix-defect''], p_scope := Some ''cache''\<rparr>) = Inr [''bbb'']
   \<and> anyFilter (noParams\<lparr>p_intents := Some [''fix-defect''], p_scope := Some ''cache''\<rparr>)
   \<and> p_limit (noParams\<lparr>p_intents := Some [''fix-defect''], p_scope := Some ''cache''\<rparr>) = None"
proof -
  let ?p = "noParams\<lparr>p_intents := Some [''fix-defect''], p_scope := Some ''cache''\<rparr>"
  have h: "lookupsOwn exampleIndex ?p" by code_simp
  have v: "(if anyFilter ?p
            then sliceTo (orderedMatches exampleIndex ?p) (limitOrDefault (p_limit ?p))
            else []) = [''bbb'']" by code_simp
  have f: "anyFilter ?p" by code_simp
  have l: "p_limit ?p = None" by code_simp
  from queryIndexForHashes_filters[OF h] v have "queryIndexForHashes exampleIndex ?p = Inr [''bbb'']"
    by simp
  with h f l show ?thesis by blast
qed

text \<open>
  C3 as stated fails on three inputs: a limit of 0 does not truncate to nothing (it stands
  for the default 20); an intents filter that is given but empty is ignored, where the
  claim's reading leaves no hash; and a session name that only Object.prototype has makes
  the query throw.
\<close>

theorem queryIndexForHashes_counterexample:
  "queryIndexForHashes exampleIndex (noParams\<lparr>p_session := Some ''s1'', p_limit := Some 0\<rparr>)
     = Inr [''aaa'', ''bbb'']
   \<and> queryIndexForHashes exampleIndex (noParams\<lparr>p_intents := Some [], p_session := Some ''s1''\<rparr>)
     = Inr [''aaa'', ''bbb'']
   \<and> queryIndexForHashes exampleIndex (noParams\<lparr>p_session := Some ''constructor''\<rparr>)
     = Inl TypeError"
  by code_simp


section \<open>Commit parser\<close>


lemma skipBlank_props:
  assumes "- 1 \<le> i" and "i < int (length lines)"
  shows "- 1 \<le> skipBlank lines i \<and> skipBlank lines i \<le> i \<and>
         (\<forall>k. skipBlank lines i < k \<and> k \<le> i \<longrightarrow> trim (lines ! nat k) = [])"
  using assms
proof (induction lines i rule: skipBlank.induct)
  case (1 lines i)
  show ?case
  proof (cases "0 \<le> i \<and> i < int (length lines) \<and> trim (lines ! nat i) = []")
    case True
    then have rec: "skipBlank lines i = skipBlank lines (i - 1)"
      by (subst skipBlank.simps) simp
    from True 1 have IH: "- 1 \<le> skipBlank lines (i - 1) \<and> skipBlank lines (i - 1) \<le> i - 1 \<and>
         (\<forall>k. skipBlank lines (i - 1) < k \<and> k \<le> i - 1 \<longrightarrow> trim (lines ! nat k) = [])"
      by simp
    show ?thesis
    proof (intro conjI allI impI)
      show "- 1 \<le> skipBlank lines i" using IH rec by simp
      show "skipBlank lines i \<le> i" using IH rec by simp
      fix k assume k: "skipBlank lines i < k \<and> k \<le> i"
      show "trim (lines ! nat k) = []"
      proof (cases "k = i")
        case True with \<open>0 \<le> i \<and> i < int (length lines) \<and> trim (lines ! nat i) = []\<close>
        show ?thesis by simp
      next
        case False with k IH rec show ?thesis by simp
      qed
    qed
  next
    case False
    then have "skipBlank lines i = i" by (subst skipBlank.simps) auto
    with 1(2) show ?thesis by auto
  qed
qed

lemma scanTrailers_props:
  assumes "- 1 \<le> i" and "i < ts" and "ts \<le> int (length lines)"
    and "\<forall>k. i < k \<and> k < int (length lines) \<longrightarrow> blankOrTrailer (lines ! nat k)"
  shows "0 \<le> scanTrailers lines i ts \<and> scanTrailers lines i ts \<le> int (length lines) \<and>
         (\<forall>k. scanTrailers lines i ts \<le> k \<and> k < int (length lines) \<longrightarrow> blankOrTrailer (lines ! nat k))"
  using assms
proof (induction lines i ts rule: scanTrailers.induct)
  case (1 lines i ts)
  let ?n = "int (length lines)"
  show ?case
  proof (cases "0 \<le> i \<and> i < ?n")
    case False
    then have "scanTrailers lines i ts = ts" by (subst scanTrailers.simps) simp
    with 1(3-6) show ?thesis by auto
  next
    case inr: True
    show ?thesis
    proof (cases "trim (lines ! nat i) = []")
      case blank: True
      let ?j = "skipBlank lines (i - 1)"
      show ?thesis
      proof (cases "0 \<le> ?j \<and> isKnownTrailer (trim (lines ! nat ?j))")
        case True
        with inr blank have rec: "scanTrailers lines i ts = scanTrailers lines (i - 1) ts"
          by (subst scanTrailers.simps) (simp add: Let_def)
        have inv: "\<forall>k. i - 1 < k \<and> k < ?n \<longrightarrow> blankOrTrailer (lines ! nat k)"
        proof (intro allI impI)
          fix k assume "i - 1 < k \<and> k < ?n"
          then show "blankOrTrailer (lines ! nat k)"
            using 1(6) blank by (cases "k = i") (auto simp: blankOrTrailer_def)
        qed
        from 1(1)[OF _ blank refl True _ _ _ inv] inr 1(3-5) rec show ?thesis by simp
      next
        case False
        with inr blank have "scanTrailers lines i ts = ts"
          by (subst scanTrailers.simps) (auto simp add: Let_def)
        with 1(3-6) show ?thesis by auto
      qed
    next
      case nonblank: False
      show ?thesis
      proof (cases "isKnownTrailer (trim (lines ! nat i))")
        case True
        with inr nonblank have rec: "scanTrailers lines i ts = scanTrailers lines (i - 1) i"
          by (subst scanTrailers.simps) simp
        have inv: "\<forall>k. i - 1 < k \<and> k < ?n \<longrightarrow> blankOrTrailer (lines ! nat k)"
        proof (intro allI impI)
          fix k assume "i - 1 < k \<and> k < ?n"
          then show "blankOrTrailer (lines ! nat k)"
            using 1(6) True by (cases "k = i") (auto simp: blankOrTrailer_def)
        qed
        from 1(2)[OF _ nonblank True _ _ _ inv] inr rec show ?thesis by simp
      next
        case False
        with inr nonblank have "scanTrailers lines i ts = ?n"
          by (subst scanTrailers.simps) simp
        then show ?thesis by auto
      qed
    qed
  qed
qed

lemma scanTrailers_stops:
  assumes "0 \<le> i" "i < int (length lines)" "trim (lines ! nat i) \<noteq> []"
    "\<not> isKnownTrailer (trim (lines ! nat i))"
  shows "scanTrailers lines i ts = int (length lines)"
  using assms by (subst scanTrailers.simps) simp

lemma trailerStartOf_props:
  "trailerStartOf lines \<le> length lines \<and>
   (\<forall>k. trailerStartOf lines \<le> k \<and> k < length lines \<longrightarrow> blankOrTrailer (lines ! k))"
proof -
  let ?n = "int (length lines)"
  let ?i = "skipBlank lines (?n - 1)"
  have sb: "- 1 \<le> ?i \<and> ?i \<le> ?n - 1 \<and> (\<forall>k. ?i < k \<and> k \<le> ?n - 1 \<longrightarrow> trim (lines ! nat k) = [])"
    by (rule skipBlank_props) simp_all
  have inv: "\<forall>k. ?i < k \<and> k < ?n \<longrightarrow> blankOrTrailer (lines ! nat k)"
    using sb by (auto simp: blankOrTrailer_def)
  have st: "0 \<le> scanTrailers lines ?i ?n \<and> scanTrailers lines ?i ?n \<le> ?n \<and>
         (\<forall>k. scanTrailers lines ?i ?n \<le> k \<and> k < ?n \<longrightarrow> blankOrTrailer (lines ! nat k))"
    by (rule scanTrailers_props) (use sb inv in simp_all)
  show ?thesis
  proof (intro conjI allI impI)
    show "trailerStartOf lines \<le> length lines"
      using st unfolding trailerStartOf_def by linarith
    fix k assume "trailerStartOf lines \<le> k \<and> k < length lines"
    then have "scanTrailers lines ?i ?n \<le> int k \<and> int k < ?n"
      using st unfolding trailerStartOf_def by linarith
    with st have "blankOrTrailer (lines ! nat (int k))" by blast
    then show "blankOrTrailer (lines ! k)" by simp
  qed
qed


lemma find_None_list_ex: "(find P xs = None) = (\<not> list_ex P xs)"
  by (auto simp: find_None_iff list_ex_iff)

lemma parse_missing:
  assumes "\<not> (hasLine block ''Hash: '' \<and> hasLine block ''Date: '' \<and> hasLine block ''Subject: '')"
  shows "\<exists>e. parseCommitBlock pj block = Inl e \<and> ParseError.reason e = missingReason"
proof -
  from assms have "find (\<lambda>l. startsWith l ''Hash: '') (splitLines (trim block)) = None
      \<or> find (\<lambda>l. startsWith l ''Date: '') (splitLines (trim block)) = None
      \<or> find (\<lambda>l. startsWith l ''Subject: '') (splitLines (trim block)) = None"
    by (auto simp: hasLine_def find_None_list_ex)
  then show ?thesis
    unfolding parseCommitBlock_def Let_def
    by (auto simp: ParseError.make_def split: option.splits)
qed

lemma parse_present:
  assumes "hasLine block ''Hash: ''" "hasLine block ''Date: ''" "hasLine block ''Subject: ''"
  shows "(headerMatch (subjectText block) = None \<longrightarrow>
            (\<exists>e. parseCommitBlock pj block = Inl e
                 \<and> ParseError.reason e = nonConventionalReason (subjectText block)))
       \<and> (headerMatch (subjectText block) \<noteq> None \<longrightarrow> (\<exists>c. parseCommitBlock pj block = Inr c))"
proof -
  from assms have "find (\<lambda>l. startsWith l ''Hash: '') (splitLines (trim block)) \<noteq> None"
    "find (\<lambda>l. startsWith l ''Date: '') (splitLines (trim block)) \<noteq> None"
    "find (\<lambda>l. startsWith l ''Subject: '') (splitLines (trim block)) \<noteq> None"
    by (simp_all add: hasLine_def find_None_list_ex)
  then obtain hl dl sl where
    f: "find (\<lambda>l. startsWith l ''Hash: '') (splitLines (trim block)) = Some hl"
       "find (\<lambda>l. startsWith l ''Date: '') (splitLines (trim block)) = Some dl"
       "find (\<lambda>l. startsWith l ''Subject: '') (splitLines (trim block)) = Some sl"
    by auto
  have st: "subjectText block = trim (drop 9 sl)" by (simp add: subjectText_def f)
  show ?thesis
    unfolding parseCommitBlock_def Let_def f st
    by (auto simp: ParseError.make_def split: option.splits)
qed

lemma reasons_differ: "missingReason \<noteq> nonConventionalReason s"
  by (simp add: missingReason_def nonConventionalReason_def)

lemma webhook_eval:
  "\<exists>c. parseCommitBlock pj webhookBlock = Inr c
     \<and> StructuredCommit.body c = ''Configure via WEBHOOK_URL: https://example.com''
     \<and> StructuredCommit.intent c = Some ''enable-capability''
     \<and> StructuredCommit.scope c = [''api/webhooks'']"
proof -
  have "(case parseCommitBlock pj webhookBlock of
           Inl e \<Rightarrow> False
         | Inr c \<Rightarrow> StructuredCommit.body c = ''Configure via WEBHOOK_URL: https://example.com''
              \<and> StructuredCommit.intent c = Some ''enable-capability''
              \<and> StructuredCommit.scope c = [''api/webhooks''])"
    by code_simp
  then show ?thesis by (cases "parseCommitBlock pj webhookBlock") auto
qed


lemma trailerLines_known:
  "\<forall>l \<in> set (snd (splitHeaderBodyTrailers rawBody)). isKnownTrailer l"
proof
  fix l assume "l \<in> set (snd (splitHeaderBodyTrailers rawBody))"
  then obtain x where x: "x \<in> set (drop (trailerStartOf (splitLines rawBody)) (splitLines rawBody))"
      "l = trim x" "trim x \<noteq> []"
    by (auto simp: splitHeaderBodyTrailers_def Let_def)
  from x(1) obtain i where i: "i < length (splitLines rawBody) - trailerStartOf (splitLines rawBody)"
      "x = splitLines rawBody ! (trailerStartOf (splitLines rawBody) + i)"
    by (auto simp: in_set_conv_nth)
  define k where "k = trailerStartOf (splitLines rawBody) + i"
  have k: "trailerStartOf (splitLines rawBody) \<le> k"
      "k < length (splitLines rawBody)" "x = splitLines rawBody ! k"
    using i by (simp_all add: k_def)
  from trailerStartOf_props[of "splitLines rawBody"] k have "blankOrTrailer x" by blast
  with x(2,3) show "isKnownTrailer l" by (simp add: blankOrTrailer_def)
qed

text \<open>
  C5. The commit block of the scenario parses to a commit whose body is the line with
  WEBHOOK_URL, whose intent is enable-capability and whose scope is the one entry
  api/webhooks. In general, for the lines of any raw body: the scan stops at a line that is
  neither blank nor a trailer with a known key, with no trailer left; every such line lies
  before \<open>trailerStart\<close>, so it and all lines above it are in the text the body is made
  of; and every trailer line returned is a trailer with a known key.
\<close>

theorem body_lines_are_not_trailers:
  "(\<exists>c. parseCommitBlock pj webhookBlock = Inr c
       \<and> StructuredCommit.body c = ''Configure via WEBHOOK_URL: https://example.com''
       \<and> StructuredCommit.intent c = Some ''enable-capability''
       \<and> StructuredCommit.scope c = [''api/webhooks''])
   \<and> fst (splitHeaderBodyTrailers rawBody)
         = trim (joinLines (take (trailerStartOf (splitLines rawBody)) (splitLines rawBody)))
   \<and> (\<forall>i ts. 0 \<le> i \<and> i < int (length (splitLines rawBody))
         \<and> trim (splitLines rawBody ! nat i) \<noteq> []
         \<and> \<not> isKnownTrailer (trim (splitLines rawBody ! nat i)) \<longrightarrow>
         scanTrailers (splitLines rawBody) i ts = int (length (splitLines rawBody)))
   \<and> (\<forall>i. i < length (splitLines rawBody)
         \<and> trim (splitLines rawBody ! i) \<noteq> []
         \<and> \<not> isKnownTrailer (trim (splitLines rawBody ! i)) \<longrightarrow>
         i < trailerStartOf (splitLines rawBody))
   \<and> (\<forall>l \<in> set (snd (splitHeaderBodyTrailers rawBody)). isKnownTrailer l)"
proof -
  have a: "fst (splitHeaderBodyTrailers rawBody)
         = trim (joinLines (take (trailerStartOf (splitLines rawBody)) (splitLines rawBody)))"
    by (simp add: splitHeaderBodyTrailers_def Let_def)
  have b: "\<forall>i ts. 0 \<le> i \<and> i < int (length (splitLines rawBody))
         \<and> trim (splitLines rawBody ! nat i) \<noteq> []
         \<and> \<not> isKnownTrailer (trim (splitLines rawBody ! nat i)) \<longrightarrow>
         scanTrailers (splitLines rawBody) i ts = int (length (splitLines rawBody))"
    using scanTrailers_stops by blast
  have c: "\<forall>i. i < length (splitLines rawBody)
         \<and> trim (splitLines rawBody ! i) \<noteq> []
         \<and> \<not> isKnownTrailer (trim (splitLines rawBody ! i)) \<longrightarrow>
         i < trailerStartOf (splitLines rawBody)"
  proof (intro allI impI)
    fix i
    assume h: "i < length (splitLines rawBody) \<and> trim (splitLines rawBody ! i) \<noteq> []
         \<and> \<not> isKnownTrailer (trim (splitLines rawBody ! i))"
    show "i < trailerStartOf (splitLines rawBody)"
    proof (rule ccontr)
      assume "\<not> i < trailerStartOf (splitLines rawBody)"
      with h trailerStartOf_props[of "splitLines rawBody"]
      have "blankOrTrailer (splitLines rawBody ! i)" by simp
      with h show False by (simp add: blankOrTrailer_def)
    qed
  qed
  from webhook_eval[of pj] a b c trailerLines_known[of rawBody] show ?thesis by blast
qed

theorem body_lines_are_not_trailers_witness:
  "0 < length (splitLines (joinLines webhookBody))
   \<and> trim (splitLines (joinLines webhookBody) ! 0) \<noteq> []
   \<and> \<not> isKnownTrailer (trim (splitLines (joinLines webhookBody) ! 0))
   \<and> 0 < trailerStartOf (splitLines (joinLines webhookBody))
   \<and> snd (splitHeaderBodyTrailers (joinLines webhookBody))
        = [''Intent: enable-capability'', ''Scope: api/webhooks'']
   \<and> isKnownTrailer ''Intent: enable-capability''"
proof -
  have h: "0 < length (splitLines (joinLines webhookBody))
      \<and> trim (splitLines (joinLines webhookBody) ! 0) \<noteq> []
      \<and> \<not> isKnownTrailer (trim (splitLines (joinLines webhookBody) ! 0))"
    by code_simp
  have t: "snd (splitHeaderBodyTrailers (joinLines webhookBody))
        = [''Intent: enable-capability'', ''Scope: api/webhooks'']"
    by code_simp
  from body_lines_are_not_trailers[of "\<lambda>s. None :: unit option" "joinLines webhookBody"]
  have i: "\<forall>i. i < length (splitLines (joinLines webhookBody))
         \<and> trim (splitLines (joinLines webhookBody) ! i) \<noteq> []
         \<and> \<not> isKnownTrailer (trim (splitLines (joinLines webhookBody) ! i)) \<longrightarrow>
         i < trailerStartOf (splitLines (joinLines webhookBody))"
    and k: "\<forall>l \<in> set (snd (splitHeaderBodyTrailers (joinLines webhookBody))). isKnownTrailer l"
    by blast+
  from i[rule_format, of 0] h have "0 < trailerStartOf (splitLines (joinLines webhookBody))"
    by blast
  moreover from k t have "isKnownTrailer ''Intent: enable-capability''" by simp
  ultimately show ?thesis using h t by blast
qed

text \<open>
  C9. With the lines of the trimmed block: parseCommitBlock fails with the reason for
  missing required fields exactly when no line starts with \<open>Hash: \<close>, or none with
  \<open>Date: \<close>, or none with \<open>Subject: \<close>; it fails with the reason for a non-conventional
  subject exactly when the three lines are there and the subject text does not match the
  header expression; and it returns a StructuredCommit exactly when the three lines are
  there and the subject text matches.
\<close>

theorem parseCommitBlock_fails_exactly:
  "((\<exists>e. parseCommitBlock pj block = Inl e \<and> ParseError.reason e = missingReason)
      \<longleftrightarrow> \<not> (hasLine block ''Hash: '' \<and> hasLine block ''Date: '' \<and> hasLine block ''Subject: ''))
   \<and> ((\<exists>e. parseCommitBlock pj block = Inl e
            \<and> ParseError.reason e = nonConventionalReason (subjectText block))
      \<longleftrightarrow> hasLine block ''Hash: '' \<and> hasLine block ''Date: '' \<and> hasLine block ''Subject: ''
          \<and> headerMatch (subjectText block) = None)
   \<and> ((\<exists>c. parseCommitBlock pj block = Inr c)
      \<longleftrightarrow> hasLine block ''Hash: '' \<and> hasLine block ''Date: '' \<and> hasLine block ''Subject: ''
          \<and> headerMatch (subjectText block) \<noteq> None)"
proof (cases "hasLine block ''Hash: '' \<and> hasLine block ''Date: '' \<and> hasLine block ''Subject: ''")
  case False
  from parse_missing[OF False, of pj] obtain e where
    e: "parseCommitBlock pj block = Inl e" "ParseError.reason e = missingReason" by blast
  with False reasons_differ[of "subjectText block"] show ?thesis by auto
next
  case True
  then have t: "hasLine block ''Hash: ''" "hasLine block ''Date: ''" "hasLine block ''Subject: ''"
    by simp_all
  note pp = parse_present[OF t, of pj]
  show ?thesis
  proof (cases "headerMatch (subjectText block)")
    case None
    with pp obtain e where e: "parseCommitBlock pj block = Inl e"
        "ParseError.reason e = nonConventionalReason (subjectText block)" by blast
    with True None reasons_differ[of "subjectText block"] show ?thesis by auto
  next
    case (Some m)
    with pp obtain c where "parseCommitBlock pj block = Inr c" by blast
    with True Some show ?thesis by auto
  qed
qed


section \<open>REPL loop\<close>


lemma llmRejection_mem:
  "llmRejection rs = Some e \<Longrightarrow> LlmThrow e \<in> set rs"
  by (induction rs rule: llmRejection.induct) auto

lemma gitRejection_mem:
  "gitRejection rs = Some e \<Longrightarrow> GitThrow e \<in> set rs"
  by (induction rs rule: gitRejection.induct) auto






lemma resultNow_answer:
  "\<exists>r s. resultNow eff startTime ans its st = Return (Inr r) s \<and> answer r = ans
       \<and> iterations r = its \<and> llmCalls r = llmCallCount st"
  by (auto simp: resultNow_def split: prod.splits)





lemma replLoop_no_code:
  assumes "i < maxIterations replConfig"
    and "budgetExhausted eff replConfig startTime st = (False, st0)"
    and "llmBudgetLeft replConfig st0"
    and "callLlm eff (world st0) (conversation st0) (maxOutputTokens replConfig) = (LlmOk resp, w)"
    and "extractCodeBlock resp = None"
  shows "replLoop eff rlmConfig replConfig startTime i st
           = Inl (resultNow eff startTime resp (i + 1)
                    (st0\<lparr>llmCallCount := llmCallCount st0 + 1, world := w\<rparr>))"
  using assms by (subst replLoop.simps) (simp add: Let_def)

lemma replLoop_done:
  assumes "i < maxIterations replConfig"
    and "budgetExhausted eff replConfig startTime st = (False, st0)"
    and "llmBudgetLeft replConfig st0"
    and "callLlm eff (world st0) (conversation st0) (maxOutputTokens replConfig) = (LlmOk resp, w)"
    and "extractCodeBlock resp = Some code"
    and "runExec eff rlmConfig replConfig (worker eff w code)
           (st0\<lparr>llmCallCount := llmCallCount st0 + 1, world := w,
                conversation := conversation st0 @ [\<lparr>role = ''assistant'', content = resp\<rparr>]\<rparr>)
          = (Settled (Inr outp), st4)"
    and "doneFlag outp" and "doneAnswer outp = Some a" and "a \<noteq> []"
  shows "\<exists>r s. replLoop eff rlmConfig replConfig startTime i st = Inl (Return (Inr r) s)
           \<and> answer r = a \<and> iterations r = i + 1"
proof -
  have "\<exists>s'. replLoop eff rlmConfig replConfig startTime i st
           = Inl (resultNow eff startTime a (i + 1) s')"
    using assms
    apply (subst replLoop.simps)
    apply (simp add: Let_def truthy_def)
    apply (rule exI)
    apply (rule refl)
    done
  then obtain s' where "replLoop eff rlmConfig replConfig startTime i st
           = Inl (resultNow eff startTime a (i + 1) s')" ..
  with resultNow_answer[of eff startTime a "i + 1" s'] show ?thesis by auto
qed

lemma stale_listener_handles_request_again:
  "fst (runRepl ((sequenceLlm [fenced ''await new Promise(() => {})'', fenced ''callLlm([])'', ''r3'', ''r4'']
                    printsOut)\<lparr>worker := hangsThenAsks\<rparr>)
          DEFAULT_CONFIG makeReplConfig ''sys'' ''task'' 0)
     = Resolved (Inr \<lparr>answer = ''r3'', iterations = 2, llmCalls = 4, elapsedMs = 0,
                      trace = [\<lparr>iteration = 0, codeGenerated = ''await new Promise(() => {})'',
                                executionResult = ''ERROR: Sandbox execution timed out'',
                                subCallCount = 0\<rparr>,
                               \<lparr>iteration = 1, codeGenerated = ''callLlm([])'',
                                executionResult = [], subCallCount = 2\<rparr>]\<rparr>)"
  by code_simp

lemma rejecting_sub_call_ends_process:
  "fst (runRepl rejectsSecondCall DEFAULT_CONFIG makeReplConfig ''sys'' ''task'' 0)
     = ProcessEnded ''connection reset''
   \<and> terminateCalls (snd (runRepl rejectsSecondCall DEFAULT_CONFIG makeReplConfig
                            ''sys'' ''task'' 0)) = 0"
  by code_simp




text \<open>
  C7. When the loop is at the index i with budgets left and the root call returns a
  response from which extractCodeBlock extracts nothing, the loop ends there with that
  entire response as the answer and with iterations = i + 1; and when the loop of a run
  comes to that index and state, runRepl resolves with this answer and this count, which
  is 1 exactly for the first response (i = 0). A response in which no opening fence is
  found is such a response.
\<close>

theorem no_code_block_response_is_answer:
  "(i < maxIterations replConfig
      \<and> budgetExhausted eff replConfig startTime st = (False, st0)
      \<and> llmBudgetLeft replConfig st0
      \<and> callLlm eff (world st0) (conversation st0) (maxOutputTokens replConfig) = (LlmOk resp, w)
      \<and> extractCodeBlock resp = None
     \<longrightarrow> (\<exists>r s. replLoop eff rlmConfig replConfig startTime i st = Inl (Return (Inr r) s)
              \<and> answer r = resp \<and> iterations r = i + 1)
         \<and> (now eff w0 = (startTime, w1)
              \<and> replLoop eff rlmConfig replConfig startTime 0
                   \<lparr>llmCallCount = 0, traceLog = [],
                    conversation = initialConversation systemPrompt prompt,
                    world = w1, listeners = 0, terminateCalls = 0\<rparr>
                 = replLoop eff rlmConfig replConfig startTime i st
            \<longrightarrow> (\<exists>r. fst (runRepl eff rlmConfig replConfig systemPrompt prompt w0)
                        = Resolved (Inr r)
                     \<and> answer r = resp \<and> iterations r = i + 1
                     \<and> (iterations r = 1 \<longleftrightarrow> i = 0))))
   \<and> (findOpenFence True resp = None \<longrightarrow> extractCodeBlock resp = None)"
proof -
  have a: "(\<exists>r s. replLoop eff rlmConfig replConfig startTime i st = Inl (Return (Inr r) s)
              \<and> answer r = resp \<and> iterations r = i + 1)
         \<and> (now eff w0 = (startTime, w1)
              \<and> replLoop eff rlmConfig replConfig startTime 0
                   \<lparr>llmCallCount = 0, traceLog = [],
                    conversation = initialConversation systemPrompt prompt,
                    world = w1, listeners = 0, terminateCalls = 0\<rparr>
                 = replLoop eff rlmConfig replConfig startTime i st
            \<longrightarrow> (\<exists>r. fst (runRepl eff rlmConfig replConfig systemPrompt prompt w0)
                        = Resolved (Inr r)
                     \<and> answer r = resp \<and> iterations r = i + 1
                     \<and> (iterations r = 1 \<longleftrightarrow> i = 0)))"
    if h: "i < maxIterations replConfig"
      "budgetExhausted eff replConfig startTime st = (False, st0)"
      "llmBudgetLeft replConfig st0"
      "callLlm eff (world st0) (conversation st0) (maxOutputTokens replConfig) = (LlmOk resp, w)"
      "extractCodeBlock resp = None"
  proof -
    from replLoop_no_code[OF h]
      resultNow_answer[of eff startTime resp "i + 1"
        "st0\<lparr>llmCallCount := llmCallCount st0 + 1, world := w\<rparr>"]
    obtain r s where rs: "replLoop eff rlmConfig replConfig startTime i st = Inl (Return (Inr r) s)"
        "answer r = resp" "iterations r = i + 1"
      by auto
    have "fst (runRepl eff rlmConfig replConfig systemPrompt prompt w0) = Resolved (Inr r)"
      if "now eff w0 = (startTime, w1)"
        "replLoop eff rlmConfig replConfig startTime 0
                   \<lparr>llmCallCount = 0, traceLog = [],
                    conversation = initialConversation systemPrompt prompt,
                    world = w1, listeners = 0, terminateCalls = 0\<rparr>
                 = replLoop eff rlmConfig replConfig startTime i st"
      using that rs(1) by (simp add: runRepl_def Let_def)
    with rs show ?thesis by auto
  qed
  have b: "findOpenFence True resp = None \<longrightarrow> extractCodeBlock resp = None"
    by (simp add: extractCodeBlock_def)
  from a b show ?thesis by blast
qed

theorem no_code_block_response_is_answer_witness:
  "0 < maxIterations makeReplConfig
   \<and> extractCodeBlock ''plain text'' = None
   \<and> findOpenFence True ''plain text'' = None
   \<and> (\<exists>r. fst (runRepl (sequenceLlm [''plain text''] printsOut) DEFAULT_CONFIG makeReplConfig
                   ''sys'' ''task'' 0) = Resolved (Inr r)
          \<and> answer r = ''plain text'' \<and> iterations r = 1)"
proof -
  let ?eff = "sequenceLlm [''plain text''] printsOut"
  let ?st = "\<lparr>llmCallCount = 0, traceLog = [],
              conversation = initialConversation ''sys'' ''task'',
              world = 0::nat, listeners = 0, terminateCalls = 0\<rparr>"
  have h1: "0 < maxIterations makeReplConfig" by (simp add: makeReplConfig_def)
  have h2: "budgetExhausted ?eff makeReplConfig 0 ?st = (False, ?st)"
    by (simp add: budgetExhausted_def sequenceLlm_def makeReplConfig_def)
  have h3: "llmBudgetLeft makeReplConfig ?st" by (simp add: llmBudgetLeft_def makeReplConfig_def)
  have h4: "callLlm ?eff (world ?st) (conversation ?st) (maxOutputTokens makeReplConfig)
              = (LlmOk ''plain text'', 1)"
    by (simp add: sequenceLlm_def)
  have h5: "extractCodeBlock ''plain text'' = None" by code_simp
  have h6: "findOpenFence True ''plain text'' = None" by code_simp
  have h7: "now ?eff 0 = (0, 0)" by (simp add: sequenceLlm_def)
  from no_code_block_response_is_answer[of 0 makeReplConfig ?eff 0 ?st ?st "''plain text''" 1
      DEFAULT_CONFIG 0 0 "''sys''" "''task''"] h1 h2 h3 h4 h5 h6 h7
  show ?thesis by blast
qed

theorem later_response_without_code_counterexample:
  "extractCodeBlock ''plain text'' = None
   \<and> fst (runRepl (sequenceLlm [fenced ''console.log(1)'', ''plain text''] printsOut)
             DEFAULT_CONFIG makeReplConfig ''sys'' ''task'' 0)
       = Resolved (Inr \<lparr>answer = ''plain text'', iterations = 2, llmCalls = 2, elapsedMs = 0,
                        trace = [\<lparr>iteration = 0, codeGenerated = ''console.log(1)'',
                                  executionResult = ''out'' @ nl, subCallCount = 0\<rparr>]\<rparr>)"
  by code_simp

text \<open>
  C8. The code \<open>done(String())\<close> passes the empty string to done, and the worker posts
  the output with done = true and doneAnswer the empty string. The condition
  \<open>output.done && output.doneAnswer\<close> is false for it, so the run does not return the
  empty answer: it goes on to the next root call and returns that response with
  iterations = 2, and when that call fails the run fails with it. For the answer
  \<open>The answer is 42\<close> the run returns it with iterations = 1.
\<close>

theorem done_with_empty_answer_not_returned:
  "callsDone [] ''done(String())''
     = \<lparr>stdout = [], error = None, doneFlag = True, doneAnswer = Some []\<rparr>
   \<and> fst (runRepl (sequenceLlm [fenced ''done(String())'', ''plain text''] (callsDone []))
             DEFAULT_CONFIG makeReplConfig ''sys'' ''task'' 0)
        = Resolved (Inr \<lparr>answer = ''plain text'', iterations = 2, llmCalls = 2, elapsedMs = 0,
                         trace = [\<lparr>iteration = 0, codeGenerated = ''done(String())'',
                                   executionResult = [], subCallCount = 0\<rparr>]\<rparr>)
   \<and> fst (runRepl (sequenceLlm [fenced ''done(String())''] (callsDone []))
             DEFAULT_CONFIG makeReplConfig ''sys'' ''task'' 0)
        = Resolved (Inl ''No more responses'')
   \<and> fst (runRepl (sequenceLlm [fenced ''done(1)'', ''plain text''] (callsDone ''The answer is 42''))
             DEFAULT_CONFIG makeReplConfig ''sys'' ''task'' 0)
        = Resolved (Inr \<lparr>answer = ''The answer is 42'', iterations = 1, llmCalls = 1,
                         elapsedMs = 0,
                         trace = [\<lparr>iteration = 0, codeGenerated = ''done(1)'',
                                   executionResult = [], subCallCount = 0\<rparr>]\<rparr>)"
  by code_simp


section \<open>Configuration\<close>

text \<open>
  C10. When the file cannot be read, or the path cannot be found, loadRlmConfig returns
  DEFAULT_CONFIG: version 1, enabled false, endpoint http://localhost:11434, model
  qwen2.5:7b, timeoutMs 5000 and maxTokens 256. These six are all its properties: the
  object has no property replMaxIterations, replMaxLlmCalls, replTimeoutBudgetMs or
  replMaxOutputTokens.
\<close>

theorem loadRlmConfig_missing_file:
  "loadRlmConfig (Inr path) (readTextFile(path := None)) jsonParse = DEFAULT_CONFIG
   \<and> loadRlmConfig (Inl e) readTextFile jsonParse = DEFAULT_CONFIG
   \<and> DEFAULT_CONFIG = \<lparr>RlmConfig.version = 1, enabled = False, endpoint = ''http://localhost:11434'',
                         model = ''qwen2.5:7b'', timeoutMs = 5000, maxTokens = 256\<rparr>
   \<and> map fst (ownProperties (loadRlmConfig (Inr path) (readTextFile(path := None)) jsonParse))
        = [''version'', ''enabled'', ''endpoint'', ''model'', ''timeoutMs'', ''maxTokens'']
   \<and> map_of (ownProperties (loadRlmConfig (Inr path) (readTextFile(path := None)) jsonParse))
        ''replMaxIterations'' = None
   \<and> map_of (ownProperties (loadRlmConfig (Inr path) (readTextFile(path := None)) jsonParse))
        ''replMaxLlmCalls'' = None
   \<and> map_of (ownProperties (loadRlmConfig (Inr path) (readTextFile(path := None)) jsonParse))
        ''replTimeoutBudgetMs'' = None
   \<and> map_of (ownProperties (loadRlmConfig (Inr path) (readTextFile(path := None)) jsonParse))
        ''replMaxOutputTokens'' = None"
  by (simp add: loadRlmConfig_def ownProperties_def DEFAULT_CONFIG_def)

end
